theory Spec2Isabelle
  imports Complex_Main
begin

section \<open>Data model\<close>

text \<open>
  The map-to-tensor conversion of \<^verbatim>\<open>lanelet_converter.py\<close>. Floating-point numbers are
  modelled as exact reals: rounding of float64 and float32 operations is not part of the
  model. A NumPy array of shape \<open>(n, 3)\<close> is a list of triples, an array of shape
  \<open>(n, 12)\<close> a list of rows, each row a list of 12 reals.
\<close>

type_synonym point = "real \<times> real \<times> real"

type_synonym mat4 = "(real \<times> real \<times> real \<times> real) \<times> (real \<times> real \<times> real \<times> real)
  \<times> (real \<times> real \<times> real \<times> real) \<times> (real \<times> real \<times> real \<times> real)"

datatype error = ValueError | TypeError | AssertionError | RuntimeError | IndexError
  | GEOSException | NotANumber | UnboundLocalError

datatype diagnostic = MoreThanOneTrafficLight int

text \<open>
  Modelled from the spec: the semantic type tag of a polyline (\<^verbatim>\<open>MapType\<close>,
  \<^verbatim>\<open>BoundaryType\<close>), whose declaration is not among the sources.
\<close>

datatype MapType = LANE_CENTER | ROAD_EDGE | ROAD_LINE | CROSSWALK | UNKNOWN

record Polyline =
  polyline_type :: MapType
  waypoints :: "point list"

record BoundarySegment =
  boundary_id :: int
  boundary_polyline :: Polyline

text \<open>
  \<^verbatim>\<open>traffic_lights\<close> holds the ids of the regulatory elements in construction order
  (the code only reads \<^verbatim>\<open>.id\<close> of the first); \<^verbatim>\<open>center\<close> is the attribute
  \<^verbatim>\<open>_fix_point_num\<close> sets.
\<close>

record LaneSegment =
  segment_id :: int
  polyline :: Polyline
  is_intersection :: bool
  left_boundaries :: "BoundarySegment list"
  right_boundaries :: "BoundarySegment list"
  left_neighbor_ids :: "int list"
  right_neighbor_ids :: "int list"
  speed_limit_mph :: "real option"
  traffic_lights :: "int list"
  center :: "real \<times> real"

section \<open>Speed limit extraction\<close>

text \<open>
  \<^verbatim>\<open>_get_speed_limit_mph\<close>: the attribute bag of a lanelet is a map from strings to
  strings; \<^verbatim>\<open>float(...)\<close> is Python's parser, taken as a parameter \<open>float_of\<close> that
  returns \<open>None\<close> where Python raises \<^verbatim>\<open>ValueError\<close>.
\<close>

definition kph2mph :: real where
  "kph2mph = 0.621371"

definition get_speed_limit_mph ::
  "(string \<Rightarrow> real option) \<Rightarrow> (string \<rightharpoonup> string) \<Rightarrow> error + real option" where
  "get_speed_limit_mph float_of attributes =
     (case attributes ''speed_limit'' of
        Some s \<Rightarrow> (case float_of s of
                     None \<Rightarrow> Inl ValueError
                   | Some v \<Rightarrow> Inr (Some (v * kph2mph)))
      | None \<Rightarrow> Inr None)"

section \<open>process_segment\<close>

definition inside :: "LaneSegment \<Rightarrow> real \<Rightarrow> real \<Rightarrow> real \<Rightarrow> bool" where
  "inside segment center_x center_y mask_range =
     (fst (center segment) > center_x - mask_range * 1.1
      \<and> fst (center segment) < center_x + mask_range * 1.1
      \<and> snd (center segment) > center_y - mask_range * 1.1
      \<and> snd (center segment) < center_y + mask_range * 1.1)"

text \<open>
  One column of \<^verbatim>\<open>(inv_transform_matrix_4x4 @ pts_4xN)[:3, :]\<close>: the first three rows
  of the matrix applied to \<open>(x, y, z, 1)\<close>.
\<close>

definition transform_point :: "mat4 \<Rightarrow> point \<Rightarrow> point" where
  "transform_point m p =
     (case m of ((a0, a1, a2, a3), (b0, b1, b2, b3), (c0, c1, c2, c3), _) \<Rightarrow>
        (case p of (x, y, z) \<Rightarrow>
           (a0 * x + a1 * y + a2 * z + a3,
            b0 * x + b1 * y + b2 * z + b3,
            c0 * x + c1 * y + c2 * z + c3)))"

definition point_sub :: "point \<Rightarrow> point \<Rightarrow> point" where
  "point_sub p q = (case p of (x, y, z) \<Rightarrow> (case q of (u, v, w) \<Rightarrow> (x - u, y - v, z - w)))"

text \<open>
  \<^verbatim>\<open>a -= b\<close> on arrays of shapes \<open>(length a, 3)\<close> and \<open>(length b, 3)\<close>: NumPy
  broadcasts \<open>b\<close> to the shape of \<open>a\<close> when the row counts agree or \<open>b\<close> has one row, and
  raises otherwise.
\<close>

definition broadcast_ok :: "'a list \<Rightarrow> 'b list \<Rightarrow> bool" where
  "broadcast_ok a b = (length b = length a \<or> length b = 1)"

definition isub :: "point list \<Rightarrow> point list \<Rightarrow> point list" where
  "isub a b =
     (if length b = length a then map2 point_sub a b
      else map (\<lambda>p. point_sub p (hd b)) a)"

text \<open>
  \<^verbatim>\<open>centerlines[1:] - centerlines[:-1]\<close> followed by \<^verbatim>\<open>np.insert\<close> of a zero row at
  the end.
\<close>

definition diff_centerlines :: "point list \<Rightarrow> point list" where
  "diff_centerlines c = map2 point_sub (tl c) (butlast c) @ [(0, 0, 0)]"

text \<open>Lines 490 to 511: the traffic-light vector (green, yellow, red, unknown) and the
  warning printed on the way.\<close>

definition traffic_light_color_vector :: "int \<Rightarrow> real list" where
  "traffic_light_color_vector traffic_light_color =
     (if traffic_light_color = 1 then [0, 0, 1, 0]
      else if traffic_light_color = 2 then [0, 1, 0, 0]
      else if traffic_light_color = 3 then [1, 0, 0, 0]
      else if traffic_light_color = 4 then [0, 0, 0, 1]
      else [0, 0, 0, 0])"

definition traffic_light_vector ::
  "LaneSegment \<Rightarrow> (int \<rightharpoonup> int) \<Rightarrow> diagnostic list \<times> real list" where
  "traffic_light_vector segment traffic_light_recognition =
     (case traffic_lights segment of
        [] \<Rightarrow> ([], [0, 0, 0, 1])
      | traffic_light_id # rest \<Rightarrow>
          (if length (traffic_lights segment) > 1
             then [MoreThanOneTrafficLight (segment_id segment)] else [],
           case traffic_light_recognition traffic_light_id of
             Some traffic_light_color \<Rightarrow> traffic_light_color_vector traffic_light_color
           | None \<Rightarrow> [0, 0, 0, 1]))"

text \<open>A vector of four channels with exactly one 1 and three 0.\<close>

definition one_hot :: "real list \<Rightarrow> bool" where
  "one_hot v = (length v = 4 \<and> length (filter (\<lambda>x. x = 1) v) = 1
                 \<and> length (filter (\<lambda>x. x = 0) v) = 3)"

text \<open>One row of \<^verbatim>\<open>line_data\<close>: 12 channels.\<close>

definition line_row :: "point \<Rightarrow> point \<Rightarrow> point \<Rightarrow> point \<Rightarrow> real list \<Rightarrow> real list" where
  "line_row c d l r traffic_light =
     [fst c, fst (snd c), fst d, fst (snd d), fst l, fst (snd l), fst r, fst (snd r)]
       @ traffic_light"

definition line_data_of ::
  "point list \<Rightarrow> point list \<Rightarrow> point list \<Rightarrow> real list \<Rightarrow> real list list" where
  "line_data_of centerlines left right traffic_light =
     map (\<lambda>i. line_row (centerlines ! i) (diff_centerlines centerlines ! i)
                (left ! i) (right ! i) traffic_light)
       [0..<length centerlines]"

text \<open>
  The result of \<^verbatim>\<open>process_segment\<close>: what it printed, and either the exception raised,
  \<^verbatim>\<open>None\<close> (outside the window), or the pair \<^verbatim>\<open>(line_data, speed_limit_mps)\<close>. The
  speed limit of the pair is kept as an optional value because the caller tests it
  against \<^verbatim>\<open>None\<close>.
\<close>

type_synonym segment_data = "real list list \<times> real option"

definition process_segment ::
  "LaneSegment \<Rightarrow> mat4 \<Rightarrow> real \<Rightarrow> real \<Rightarrow> real \<Rightarrow> (int \<rightharpoonup> int)
     \<Rightarrow> diagnostic list \<times> (error + segment_data option)" where
  "process_segment segment inv_transform_matrix_4x4 center_x center_y mask_range
       traffic_light_recognition =
     (case left_boundaries segment of [] \<Rightarrow> ([], Inl IndexError) | lb # _ \<Rightarrow>
      (case right_boundaries segment of [] \<Rightarrow> ([], Inl IndexError) | rb # _ \<Rightarrow>
        if \<not> inside segment center_x center_y mask_range then ([], Inr None)
        else
          let centerlines = map (transform_point inv_transform_matrix_4x4)
                              (waypoints (polyline segment));
              left = map (transform_point inv_transform_matrix_4x4)
                       (waypoints (boundary_polyline lb));
              right = map (transform_point inv_transform_matrix_4x4)
                        (waypoints (boundary_polyline rb))
          in if \<not> broadcast_ok left centerlines then ([], Inl ValueError)
             else if \<not> broadcast_ok right centerlines then ([], Inl ValueError)
             else
               let left = isub left centerlines;
                   right = isub right centerlines;
                   (printed, traffic_light) =
                      traffic_light_vector segment traffic_light_recognition
               in if \<not> (length (diff_centerlines centerlines) = length centerlines
                         \<and> length left = length centerlines
                         \<and> length right = length centerlines)
                  then (printed, Inl ValueError)
                  else
                    (case speed_limit_mph segment of
                       None \<Rightarrow> (printed, Inl TypeError)
                     | Some mph \<Rightarrow>
                         (printed,
                          Inr (Some (line_data_of centerlines left right traffic_light,
                                     Some (mph * 0.44704)))))))"

section \<open>create_lane_tensor\<close>

text \<open>
  The first loop: every segment is processed in list order; a segment outside the window
  is skipped, an exception ends the call. The printed warnings are collected in order.
\<close>

fun collect_results ::
  "LaneSegment list \<Rightarrow> mat4 \<Rightarrow> real \<Rightarrow> real \<Rightarrow> real \<Rightarrow> (int \<rightharpoonup> int)
     \<Rightarrow> diagnostic list \<times> (error + segment_data list)" where
  "collect_results [] m center_x center_y mask_range tlr = ([], Inr [])"
| "collect_results (segment # rest) m center_x center_y mask_range tlr =
     (case process_segment segment m center_x center_y mask_range tlr of
        (printed, Inl e) \<Rightarrow> (printed, Inl e)
      | (printed, Inr curr_data) \<Rightarrow>
          (case collect_results rest m center_x center_y mask_range tlr of
             (printed', Inl e) \<Rightarrow> (printed @ printed', Inl e)
           | (printed', Inr result_list) \<Rightarrow>
               (printed @ printed',
                Inr (case curr_data of None \<Rightarrow> result_list
                     | Some d \<Rightarrow> d # result_list))))"

text \<open>
  The sort key \<^verbatim>\<open>np.linalg.norm(tup[0][0, :2])\<close>: the Euclidean norm of the first two
  channels of the first row of \<^verbatim>\<open>line_data\<close>. Every \<^verbatim>\<open>line_data\<close> that
  \<^verbatim>\<open>process_segment\<close> returns has at least one row of 12 channels.
\<close>

definition first_point_distance :: "segment_data \<Rightarrow> real" where
  "first_point_distance tup =
     (case fst tup of
        [] \<Rightarrow> 0
      | row # _ \<Rightarrow> sqrt ((row ! 0)\<^sup>2 + (row ! 1)\<^sup>2))"

text \<open>
  \<^verbatim>\<open>lanes_tensor[0, i] = torch.from_numpy(line_data)\<close>: the right-hand side has 12
  columns; it is copied when it has 20 rows, broadcast when it has one row, and refused
  otherwise.
\<close>

definition to_lane_row :: "real list list \<Rightarrow> error + real list list" where
  "to_lane_row line_data =
     (if length line_data = 20 then Inr line_data
      else if length line_data = 1 then Inr (replicate 20 (hd line_data))
      else Inl RuntimeError)"

text \<open>
  The three output tensors have a leading batch dimension of size 1; the loop state holds
  their only batch entry: \<open>N\<close> rows of \<open>20 \<times> 12\<close> reals, \<open>N\<close> rows of one real, \<open>N\<close> rows
  of one flag.
\<close>

type_synonym tensors = "real list list list \<times> real list list \<times> bool list list"

fun fill_rows :: "nat \<Rightarrow> segment_data list \<Rightarrow> tensors \<Rightarrow> error + tensors" where
  "fill_rows i [] st = Inr st"
| "fill_rows i ((line_data, speed_limit) # rest) (lanes_tensor, lanes_speed_limit,
       lanes_has_speed_limit) =
     (if i \<ge> length lanes_tensor then Inl IndexError
      else case to_lane_row line_data of
        Inl e \<Rightarrow> Inl e
      | Inr row \<Rightarrow>
          (case speed_limit of
             None \<Rightarrow> Inl AssertionError
           | Some v \<Rightarrow>
               fill_rows (Suc i) rest
                 (lanes_tensor[i := row],
                  lanes_speed_limit[i := [v]],
                  lanes_has_speed_limit[i := [speed_limit \<noteq> None]])))"

definition zero_tensors :: "nat \<Rightarrow> tensors" where
  "zero_tensors n =
     (replicate n (replicate 20 (replicate 12 0)),
      replicate n [0],
      replicate n [False])"

text \<open>
  \<^verbatim>\<open>sorted\<close> is a stable sort by key, \<^verbatim>\<open>result_list[0:num_segments]\<close> a prefix.
  \<^verbatim>\<open>torch.zeros\<close> refuses a negative dimension. The returned tensors carry the batch
  dimension again.
\<close>

definition select_segments :: "int \<Rightarrow> segment_data list \<Rightarrow> segment_data list" where
  "select_segments num_segments result_list =
     take (nat num_segments) (sort_key first_point_distance result_list)"

definition create_lane_tensor ::
  "LaneSegment list \<Rightarrow> mat4 \<Rightarrow> real \<Rightarrow> real \<Rightarrow> real \<Rightarrow> (int \<rightharpoonup> int) \<Rightarrow> int
     \<Rightarrow> diagnostic list
        \<times> (error + real list list list list \<times> real list list list \<times> bool list list list)"
  where
  "create_lane_tensor lane_segments map2bl_mat4x4 center_x center_y mask_range
       traffic_light_recognition num_segments =
     (case collect_results lane_segments map2bl_mat4x4 center_x center_y mask_range
             traffic_light_recognition of
        (printed, Inl e) \<Rightarrow> (printed, Inl e)
      | (printed, Inr result_list) \<Rightarrow>
          if num_segments < 0 then (printed, Inl RuntimeError)
          else
            (case fill_rows 0 (select_segments num_segments result_list)
                    (zero_tensors (nat num_segments)) of
               Inl e \<Rightarrow> (printed, Inl e)
             | Inr (lanes_tensor, lanes_speed_limit, lanes_has_speed_limit) \<Rightarrow>
                 (printed,
                  Inr ([lanes_tensor], [lanes_speed_limit], [lanes_has_speed_limit]))))"

text \<open>
  The shape that \<^verbatim>\<open>_fix_point_num\<close> gives a lane segment: one left and one right
  boundary at least, and \<open>n\<close> waypoints on the centerline and on the first boundary of
  each side.
\<close>

definition shape_ok :: "LaneSegment \<Rightarrow> nat \<Rightarrow> bool" where
  "shape_ok segment n =
     (case left_boundaries segment of [] \<Rightarrow> False | lb # _ \<Rightarrow>
      (case right_boundaries segment of [] \<Rightarrow> False | rb # _ \<Rightarrow>
         length (waypoints (polyline segment)) = n
         \<and> length (waypoints (boundary_polyline lb)) = n
         \<and> length (waypoints (boundary_polyline rb)) = n))"

section \<open>Resampling to a fixed number of points\<close>

text \<open>
  \<^verbatim>\<open>_interpolate_points\<close> rests on three library calls, modelled as the libraries
  document them. Shapely is a planar library: \<^verbatim>\<open>LineString.length\<close> and the distances
  walked by \<^verbatim>\<open>LineString.interpolate\<close> use \<open>x\<close> and \<open>y\<close> only, while \<open>z\<close> is
  interpolated along.
\<close>

definition planar_distance :: "point \<Rightarrow> point \<Rightarrow> real" where
  "planar_distance p q =
     (case p of (x, y, z) \<Rightarrow> (case q of (u, v, w) \<Rightarrow> sqrt ((x - u)\<^sup>2 + (y - v)\<^sup>2)))"

fun line_length :: "point list \<Rightarrow> real" where
  "line_length (p # q # ps) = planar_distance p q + line_length (q # ps)"
| "line_length ps = 0"

text \<open>
  The point at the given fraction of the segment from \<open>p0\<close> to \<open>p1\<close>, clamped to its
  ends.
\<close>

definition point_along_segment :: "point \<Rightarrow> point \<Rightarrow> real \<Rightarrow> point" where
  "point_along_segment p0 p1 fraction =
     (if fraction \<le> 0 then p0
      else if 1 \<le> fraction then p1
      else (case p0 of (x0, y0, z0) \<Rightarrow> (case p1 of (x1, y1, z1) \<Rightarrow>
              ((x1 - x0) * fraction + x0, (y1 - y0) * fraction + y0,
               (z1 - z0) * fraction + z0))))"

text \<open>
  The walk of \<^verbatim>\<open>interpolate\<close> along the vertices: \<open>total_length\<close> is the length of
  the segments passed. The first segment that reaches beyond \<open>d\<close> holds the point, at
  the fraction \<open>(d - total_length) / seg_len\<close>; at the last vertex the walk ends there. A
  division by a zero \<open>seg_len\<close> would not raise: it would put NaN in the coordinates. The
  reals have no NaN, so the model returns \<open>None\<close> for it, and "no division by zero, no
  NaN" is the statement that the result is \<open>Some\<close>.
\<close>

fun walk :: "point list \<Rightarrow> real \<Rightarrow> real \<Rightarrow> point option" where
  "walk (p0 # p1 # ps) total_length d =
     (let seg_len = planar_distance p1 p0 in
      if total_length + seg_len > d
      then (if seg_len = 0 then None
            else Some (point_along_segment p0 p1 ((d - total_length) / seg_len)))
      else walk (p1 # ps) (total_length + seg_len) d)"
| "walk [p] total_length d = Some p"
| "walk [] total_length d = None"

text \<open>
  \<^verbatim>\<open>line.interpolate(d)\<close> on a line with at least one vertex: a negative distance is
  measured back from the end, a distance that is then not positive gives the first
  vertex, a distance beyond the length the last.
\<close>

definition interpolate :: "point list \<Rightarrow> real \<Rightarrow> point option" where
  "interpolate line d =
     (let forward = (if d < 0 then line_length line + d else d) in
      if forward \<le> 0 then (case line of [] \<Rightarrow> None | p # _ \<Rightarrow> Some p)
      else walk line 0 forward)"

text \<open>
  \<^verbatim>\<open>np.linspace(start, stop, num)\<close> for \<open>num \<ge> 0\<close>: no sample, the start alone, or
  \<open>num\<close> samples at the step \<open>(stop - start) / (num - 1)\<close>, the last of them set to
  \<open>stop\<close>.
\<close>

definition linspace :: "real \<Rightarrow> real \<Rightarrow> nat \<Rightarrow> real list" where
  "linspace start stop num =
     (if num = 0 then []
      else if num = 1 then [start]
      else (map (\<lambda>i. real i * ((stop - start) / real (num - 1)) + start) [0..<num])
             [num - 1 := stop])"

text \<open>
  \<^verbatim>\<open>_interpolate_points\<close>. \<^verbatim>\<open>LineString\<close> refuses exactly one coordinate
  (\<^verbatim>\<open>GEOSException\<close>) and accepts none (the empty line, of length 0, on which every
  interpolation is the empty point, with no coordinate row). \<^verbatim>\<open>np.linspace\<close> refuses a
  negative number of samples and \<^verbatim>\<open>np.concatenate\<close> an empty list of arrays, both with
  \<^verbatim>\<open>ValueError\<close>. \<open>NotANumber\<close> is not an exception of the program: it marks a
  result that would hold NaN (see \<open>walk\<close>).
\<close>

definition interpolate_points :: "point list \<Rightarrow> int \<Rightarrow> error + point list" where
  "interpolate_points line num_point =
     (if length line = 1 then Inl GEOSException
      else if num_point < 0 then Inl ValueError
      else
        let ds = linspace 0 (line_length line) (nat num_point) in
        if ds = [] then Inl ValueError
        else if line = [] then Inr []
        else (case those (map (interpolate line) ds) of
                None \<Rightarrow> Inl NotANumber
              | Some new_line \<Rightarrow> Inr new_line))"

text \<open>
  \<^verbatim>\<open>_interpolate_lane\<close>, the first pass over every polyline of the map, at a fixed
  spacing of half a metre. Its library calls are modelled as documented:
  \<^verbatim>\<open>np.linalg.norm\<close> of a row of three, \<^verbatim>\<open>np.arange(0, stop, step)\<close> with its
  \<open>\<lceil>stop / step\<rceil>\<close> samples, \<^verbatim>\<open>np.allclose\<close> with its default tolerances, and
  \<^verbatim>\<open>interp1d(kind="linear")\<close>, which hands the evaluation to \<^verbatim>\<open>np.interp\<close> and refuses
  an abscissa outside the given ones with \<^verbatim>\<open>ValueError\<close>.
\<close>

definition norm3 :: "point \<Rightarrow> real" where
  "norm3 p = (case p of (x, y, z) \<Rightarrow> sqrt (x\<^sup>2 + y\<^sup>2 + z\<^sup>2))"

text \<open>The array \<^verbatim>\<open>distances\<close>: the arc length up to each waypoint, in space.\<close>

fun distances_from :: "real \<Rightarrow> point list \<Rightarrow> real list" where
  "distances_from acc (p # q # ps) =
     acc # distances_from (acc + norm3 (point_sub q p)) (q # ps)"
| "distances_from acc [p] = [acc]"
| "distances_from acc [] = []"

definition arange :: "real \<Rightarrow> real \<Rightarrow> real list" where
  "arange stop step = map (\<lambda>i. real i * step) [0..<nat \<lceil>stop / step\<rceil>]"

text \<open>
  \<^verbatim>\<open>np.interp(x, xp, fp)\<close> on ascending \<open>xp\<close>: outside the range the end values;
  inside, with \<open>j\<close> the last index whose abscissa is not beyond \<open>x\<close>, the value
  \<open>fp[j]\<close> when \<open>j\<close> is the last index or \<open>xp[j] = x\<close>, and the value on the chord
  from \<open>j\<close> to \<open>j + 1\<close> otherwise. As in \<open>walk\<close>, \<open>None\<close> stands for the NaN of a
  division by zero.
\<close>

definition np_interp :: "real list \<Rightarrow> real list \<Rightarrow> real \<Rightarrow> real option" where
  "np_interp xp fp x =
     (if x < hd xp then Some (hd fp)
      else if last xp < x then Some (last fp)
      else
        let j = length (takeWhile (\<lambda>a. a \<le> x) xp) - 1 in
        if j = length xp - 1 then Some (fp ! j)
        else if xp ! j = x then Some (fp ! j)
        else if xp ! (j + 1) - xp ! j = 0 then None
        else Some ((fp ! (j + 1) - fp ! j) / (xp ! (j + 1) - xp ! j) * (x - xp ! j) + fp ! j))"

definition interp_point :: "real list \<Rightarrow> point list \<Rightarrow> real \<Rightarrow> point option" where
  "interp_point distances lane_points d =
     (case np_interp distances (map fst lane_points) d of None \<Rightarrow> None | Some x \<Rightarrow>
      (case np_interp distances (map (\<lambda>p. fst (snd p)) lane_points) d of None \<Rightarrow> None | Some y \<Rightarrow>
       (case np_interp distances (map (\<lambda>p. snd (snd p)) lane_points) d of None \<Rightarrow> None
        | Some z \<Rightarrow> Some (x, y, z))))"

definition allclose :: "point \<Rightarrow> point \<Rightarrow> bool" where
  "allclose a b =
     (case a of (a0, a1, a2) \<Rightarrow> (case b of (b0, b1, b2) \<Rightarrow>
        \<bar>a0 - b0\<bar> \<le> 1 / 10 ^ 8 + 1 / 10 ^ 5 * \<bar>b0\<bar>
        \<and> \<bar>a1 - b1\<bar> \<le> 1 / 10 ^ 8 + 1 / 10 ^ 5 * \<bar>b1\<bar>
        \<and> \<bar>a2 - b2\<bar> \<le> 1 / 10 ^ 8 + 1 / 10 ^ 5 * \<bar>b2\<bar>))"

text \<open>
  On no waypoint \<^verbatim>\<open>distances[-1]\<close> raises \<^verbatim>\<open>IndexError\<close>. The new distances are the
  multiples of 0.5 below the total length, and the total length; the first and the last
  waypoint are put back when the interpolated ends are not close to them. The argument
  \<^verbatim>\<open>waypoints\<close> of the source is \<open>lane_points\<close> here, the name being a field of
  \<open>Polyline\<close>.
\<close>

definition interpolate_lane :: "point list \<Rightarrow> error + point list" where
  "interpolate_lane lane_points =
     (if lane_points = [] then Inl IndexError
      else
        let distances = distances_from 0 lane_points;
            new_distances = arange (last distances) 0.5 @ [last distances]
        in if list_ex (\<lambda>d. d < hd distances \<or> last distances < d) new_distances
           then Inl ValueError
           else (case those (map (interp_point distances lane_points) new_distances) of
                   None \<Rightarrow> Inl NotANumber
                 | Some new_waypoints \<Rightarrow>
                     let new_waypoints =
                           (if \<not> allclose (hd new_waypoints) (hd lane_points)
                            then hd lane_points # new_waypoints else new_waypoints);
                         new_waypoints =
                           (if \<not> allclose (last new_waypoints) (last lane_points)
                            then new_waypoints @ [last lane_points] else new_waypoints)
                     in Inr new_waypoints))"

text \<open>
  \<^verbatim>\<open>np.mean(centerlines[:, 0:2], axis=0)\<close>. For an empty array NumPy gives nan (and
  warns); the quotient of the reals by 0 stands there, and nothing below depends on it.
\<close>

definition mean_xy :: "point list \<Rightarrow> real \<times> real" where
  "mean_xy ps =
     (sum_list (map fst ps) / real (length ps),
      sum_list (map (\<lambda>p. fst (snd p)) ps) / real (length ps))"

text \<open>
  One pass of the loop of \<^verbatim>\<open>_fix_point_num\<close>: the three polylines are read first (an
  empty boundary list raises \<^verbatim>\<open>IndexError\<close>), each is resampled to 20 points, and the
  center is the mean of the centerline as it was before resampling.
\<close>

definition fix_segment :: "LaneSegment \<Rightarrow> error + LaneSegment" where
  "fix_segment segment =
     (case left_boundaries segment of [] \<Rightarrow> Inl IndexError | lb # lbs \<Rightarrow>
      (case right_boundaries segment of [] \<Rightarrow> Inl IndexError | rb # rbs \<Rightarrow>
        let centerlines = waypoints (polyline segment) in
        (case interpolate_points centerlines 20 of Inl e \<Rightarrow> Inl e | Inr c \<Rightarrow>
         (case interpolate_points (waypoints (boundary_polyline lb)) 20 of
            Inl e \<Rightarrow> Inl e | Inr l \<Rightarrow>
          (case interpolate_points (waypoints (boundary_polyline rb)) 20 of
             Inl e \<Rightarrow> Inl e | Inr r \<Rightarrow>
               Inr (segment
                 \<lparr>polyline := (polyline segment)\<lparr>waypoints := c\<rparr>,
                  left_boundaries :=
                    lb\<lparr>boundary_polyline := (boundary_polyline lb)\<lparr>waypoints := l\<rparr>\<rparr> # lbs,
                  right_boundaries :=
                    rb\<lparr>boundary_polyline := (boundary_polyline rb)\<lparr>waypoints := r\<rparr>\<rparr> # rbs,
                  center := mean_xy centerlines\<rparr>))))))"

text \<open>
  \<^verbatim>\<open>_fix_point_num\<close> over the lane segments of the map, in the order of the dictionary;
  the first exception ends the construction of the map.
\<close>

fun fix_point_num :: "LaneSegment list \<Rightarrow> error + LaneSegment list" where
  "fix_point_num [] = Inr []"
| "fix_point_num (segment # rest) =
     (case fix_segment segment of
        Inl e \<Rightarrow> Inl e
      | Inr segment' \<Rightarrow>
          (case fix_point_num rest of
             Inl e \<Rightarrow> Inl e
           | Inr rest' \<Rightarrow> Inr (segment' # rest')))"

text \<open>
  What the resampler needs of a polyline to keep both of its ends: two points at least
  and a positive length as the resampler measures it, in the plane.
\<close>

definition resamplable :: "point list \<Rightarrow> bool" where
  "resamplable line = (2 \<le> length line \<and> 0 < line_length line)"

definition same_ends :: "point list \<Rightarrow> point list \<Rightarrow> bool" where
  "same_ends old new = (hd new = hd old \<and> last new = last old)"

definition resamplable_segment :: "LaneSegment \<Rightarrow> bool" where
  "resamplable_segment segment =
     (case left_boundaries segment of [] \<Rightarrow> False | lb # _ \<Rightarrow>
      (case right_boundaries segment of [] \<Rightarrow> False | rb # _ \<Rightarrow>
         resamplable (waypoints (polyline segment))
         \<and> resamplable (waypoints (boundary_polyline lb))
         \<and> resamplable (waypoints (boundary_polyline rb))))"

text \<open>
  The arc length as the first loop of \<^verbatim>\<open>_interpolate_lane\<close> accumulates it
  (\<^verbatim>\<open>distances[-1]\<close>): the sum of the norms of the consecutive differences, in space.
\<close>

fun arc_length :: "point list \<Rightarrow> real" where
  "arc_length (p # q # ps) =
     (case point_sub q p of (dx, dy, dz) \<Rightarrow> sqrt (dx\<^sup>2 + dy\<^sup>2 + dz\<^sup>2)) + arc_length (q # ps)"
| "arc_length ps = 0"

text \<open>
  The quantity the ranking is stated with: the distance, in the ego frame and in the
  plane, from the origin to the first centerline point of a segment. It is a notion of
  the specification, related to the sort key of the code by a lemma.
\<close>

definition ego_distance_first_point :: "mat4 \<Rightarrow> LaneSegment \<Rightarrow> real" where
  "ego_distance_first_point m segment =
     (case transform_point m (hd (waypoints (polyline segment))) of
        (x, y, z) \<Rightarrow> sqrt (x\<^sup>2 + y\<^sup>2))"

section \<open>The lane loops of visualize_inputs\<close>














section \<open>Concrete inputs\<close>

text \<open>
  A straight lane along the x axis, one metre between waypoints, with boundaries one
  metre to each side, and the identity transform (ego pose at the map origin).
\<close>

definition identity_mat4 :: mat4 where
  "identity_mat4 = ((1, 0, 0, 0), (0, 1, 0, 0), (0, 0, 1, 0), (0, 0, 0, 1))"

definition straight_line :: "nat \<Rightarrow> real \<Rightarrow> real \<Rightarrow> Polyline" where
  "straight_line n x0 y0 =
     \<lparr>polyline_type = LANE_CENTER,
      waypoints = map (\<lambda>i. (x0 + real i, y0, 0)) [0..<n]\<rparr>"

definition example_segment ::
  "int \<Rightarrow> nat \<Rightarrow> real \<Rightarrow> real option \<Rightarrow> int list \<Rightarrow> LaneSegment" where
  "example_segment sid n x0 speed tls =
     \<lparr>segment_id = sid,
      polyline = straight_line n x0 0,
      is_intersection = False,
      left_boundaries = [\<lparr>boundary_id = 2 * sid, boundary_polyline = straight_line n x0 1\<rparr>],
      right_boundaries =
        [\<lparr>boundary_id = 2 * sid + 1, boundary_polyline = straight_line n x0 (- 1)\<rparr>],
      left_neighbor_ids = [],
      right_neighbor_ids = [],
      speed_limit_mph = speed,
      traffic_lights = tls,
      center = (x0, 0)\<rparr>"





section \<open>Properties of process_segment\<close>

lemma length_diff_centerlines: "c \<noteq> [] \<Longrightarrow> length (diff_centerlines c) = length c"
  by (cases c) (simp_all add: diff_centerlines_def)

lemma length_isub: "length (isub a b) = length a"
  by (simp add: isub_def)

lemma length_line_data_of: "length (line_data_of c l r t) = length c"
  by (simp add: line_data_of_def)

lemma process_segment_outside:
  "process_segment seg m cx cy r tlr = (pr, Inr None) \<Longrightarrow> \<not> inside seg cx cy r"
  by (auto simp: process_segment_def Let_def split: list.splits if_splits option.splits prod.splits)

lemma process_segment_Some:
  assumes "process_segment seg m cx cy r tlr = (pr, Inr (Some (ld, sp)))"
  shows "inside seg cx cy r"
    and "\<exists>mph. speed_limit_mph seg = Some mph \<and> sp = Some (mph * 0.44704)"
    and "length ld = length (waypoints (polyline seg))"
    and "ld \<noteq> []"
    and "pr = fst (traffic_light_vector seg tlr)"
    and "\<forall>row\<in>set ld. drop 8 row = snd (traffic_light_vector seg tlr)"
  using assms
  by (auto simp: process_segment_def Let_def length_line_data_of line_data_of_def line_row_def
       diff_centerlines_def
       split: list.splits if_splits option.splits prod.splits)

lemma process_segment_ok:
  assumes "shape_ok seg n" "0 < n" "inside seg cx cy r" "speed_limit_mph seg = Some mph"
  shows "\<exists>ld. process_segment seg m cx cy r tlr
            = (fst (traffic_light_vector seg tlr), Inr (Some (ld, Some (mph * 0.44704))))
          \<and> length ld = n"
proof -
  obtain lb lbs where lb: "left_boundaries seg = lb # lbs"
    using assms(1) by (auto simp: shape_ok_def split: list.splits)
  obtain rb rbs where rb: "right_boundaries seg = rb # rbs"
    using assms(1) by (auto simp: shape_ok_def split: list.splits)
  have len: "length (waypoints (polyline seg)) = n"
    "length (waypoints (boundary_polyline lb)) = n"
    "length (waypoints (boundary_polyline rb)) = n"
    using assms(1) lb rb by (simp_all add: shape_ok_def)
  have ne: "map (transform_point m) (waypoints (polyline seg)) \<noteq> []"
    using len(1) assms(2) by auto
  show ?thesis
    using assms(3,4) len ne
    by (simp add: process_segment_def lb rb Let_def broadcast_ok_def length_isub
        length_diff_centerlines length_line_data_of split: prod.splits)
qed

section \<open>Properties of the two loops of create_lane_tensor\<close>

lemma collect_results_length:
  "collect_results segs m cx cy r tlr = (pr, Inr rl)
   \<Longrightarrow> length rl = length (filter (\<lambda>s. inside s cx cy r) segs)"
proof (induction segs arbitrary: pr rl)
  case Nil
  then show ?case by simp
next
  case (Cons s segs)
  from Cons.prems obtain p1 cd p2 rl2 where
    ps: "process_segment s m cx cy r tlr = (p1, Inr cd)"
    and cr: "collect_results segs m cx cy r tlr = (p2, Inr rl2)"
    and rl: "rl = (case cd of None \<Rightarrow> rl2 | Some d \<Rightarrow> d # rl2)"
    by (auto split: prod.splits sum.splits)
  show ?case
  proof (cases cd)
    case None
    with ps have "\<not> inside s cx cy r" by (auto dest: process_segment_outside)
    with None rl Cons.IH[OF cr] show ?thesis by simp
  next
    case (Some d)
    with ps have "inside s cx cy r" by (cases d) (auto dest: process_segment_Some(1))
    with Some rl Cons.IH[OF cr] show ?thesis by simp
  qed
qed

lemma collect_results_elem:
  "collect_results segs m cx cy r tlr = (pr, Inr rl) \<Longrightarrow> d \<in> set rl
   \<Longrightarrow> fst d \<noteq> [] \<and> snd d \<noteq> None"
proof (induction segs arbitrary: pr rl)
  case Nil
  then show ?case by simp
next
  case (Cons s segs)
  from Cons.prems(1) obtain p1 cd p2 rl2 where
    ps: "process_segment s m cx cy r tlr = (p1, Inr cd)"
    and cr: "collect_results segs m cx cy r tlr = (p2, Inr rl2)"
    and rl: "rl = (case cd of None \<Rightarrow> rl2 | Some d \<Rightarrow> d # rl2)"
    by (auto split: prod.splits sum.splits)
  show ?case
  proof (cases "d \<in> set rl2")
    case True
    then show ?thesis using Cons.IH[OF cr] by simp
  next
    case False
    with rl Cons.prems(2) have cd: "cd = Some d" by (cases cd) auto
    obtain ld sp where d: "d = (ld, sp)" by (cases d)
    from process_segment_Some(2,4)[OF ps[unfolded cd d]] show ?thesis by (auto simp: d)
  qed
qed

lemma collect_results_ok:
  assumes "\<forall>s\<in>set segs. inside s cx cy r \<longrightarrow> shape_ok s n \<and> speed_limit_mph s \<noteq> None"
    and "\<forall>s\<in>set segs. left_boundaries s \<noteq> [] \<and> right_boundaries s \<noteq> []"
    and "0 < n"
  shows "\<exists>pr rl. collect_results segs m cx cy r tlr = (pr, Inr rl)
            \<and> (\<forall>d\<in>set rl. length (fst d) = n)"
  using assms
proof (induction segs)
  case Nil
  then show ?case by simp
next
  case (Cons s segs)
  then obtain pr rl where rec: "collect_results segs m cx cy r tlr = (pr, Inr rl)"
    "\<forall>d\<in>set rl. length (fst d) = n" by auto
  show ?case
  proof (cases "inside s cx cy r")
    case True
    then obtain mph where "speed_limit_mph s = Some mph" "shape_ok s n" using Cons.prems by auto
    from process_segment_ok[OF this(2) \<open>0 < n\<close> True this(1), of m tlr]
    show ?thesis using rec by auto
  next
    case False
    then have "process_segment s m cx cy r tlr = ([], Inr None)"
      using Cons.prems(2) by (auto simp: process_segment_def split: list.splits)
    then show ?thesis using rec by auto
  qed
qed

lemma fill_rows_length:
  "fill_rows i xs (T, S, H) = Inr (T', S', H')
   \<Longrightarrow> length T' = length T \<and> length S' = length S \<and> length H' = length H"
proof (induction xs arbitrary: i T S H)
  case Nil
  then show ?case by simp
next
  case (Cons x xs)
  obtain ld sp where x: "x = (ld, sp)" by (cases x)
  from Cons.prems show ?case
    using Cons.IH
    by (fastforce simp: x split: if_splits sum.splits option.splits)
qed

lemma fill_rows_untouched:
  "fill_rows i xs (T, S, H) = Inr (T', S', H') \<Longrightarrow> j < i \<or> i + length xs \<le> j
   \<Longrightarrow> T' ! j = T ! j \<and> S' ! j = S ! j \<and> H' ! j = H ! j"
proof (induction xs arbitrary: i T S H)
  case Nil
  then show ?case by simp
next
  case (Cons x xs)
  obtain ld sp where x: "x = (ld, sp)" by (cases x)
  from Cons.prems(1) obtain row v where
    step: "to_lane_row ld = Inr row" "sp = Some v"
      "fill_rows (Suc i) xs (T[i := row], S[i := [v]], H[i := [sp \<noteq> None]]) = Inr (T', S', H')"
    by (auto simp: x split: if_splits sum.splits option.splits)
  have "j < Suc i \<or> Suc i + length xs \<le> j" "j \<noteq> i" using Cons.prems(2) by auto
  from Cons.IH[OF step(3) this(1)] this(2) show ?case by simp
qed

lemma fill_rows_filled:
  "fill_rows i xs (T, S, H) = Inr (T', S', H') \<Longrightarrow> k < length xs
   \<Longrightarrow> length S = length T \<Longrightarrow> length H = length T
   \<Longrightarrow> to_lane_row (fst (xs ! k)) = Inr (T' ! (i + k))
       \<and> (\<exists>v. snd (xs ! k) = Some v \<and> S' ! (i + k) = [v])
       \<and> H' ! (i + k) = [True]
       \<and> i + k < length T"
proof (induction xs arbitrary: i k T S H)
  case Nil
  then show ?case by simp
next
  case (Cons x xs)
  obtain ld sp where x: "x = (ld, sp)" by (cases x)
  from Cons.prems(1) obtain row v where
    step: "i < length T" "to_lane_row ld = Inr row" "sp = Some v"
      "fill_rows (Suc i) xs (T[i := row], S[i := [v]], H[i := [sp \<noteq> None]]) = Inr (T', S', H')"
    by (auto simp: x split: if_splits sum.splits option.splits)
  show ?case
  proof (cases k)
    case 0
    from fill_rows_untouched[OF step(4), of i] step(1,2,3) Cons.prems(3,4) 0 show ?thesis
      by (simp add: x)
  next
    case (Suc k')
    then have "k' < length xs" using Cons.prems(2) by simp
    from Cons.IH[OF step(4) this] Cons.prems(3,4) show ?thesis by (simp add: Suc x)
  qed
qed

lemma fill_rows_ok:
  "i + length xs \<le> length T
   \<Longrightarrow> \<forall>d\<in>set xs. (length (fst d) = 20 \<or> length (fst d) = 1) \<and> snd d \<noteq> None
   \<Longrightarrow> \<exists>st. fill_rows i xs (T, S, H) = Inr st"
proof (induction xs arbitrary: i T S H)
  case Nil
  then show ?case by simp
next
  case (Cons x xs)
  obtain ld sp where x: "x = (ld, sp)" by (cases x)
  from Cons.prems obtain v where v: "sp = Some v" by (auto simp: x)
  from Cons.prems obtain row where row: "to_lane_row ld = Inr row"
    by (auto simp: x to_lane_row_def)
  have "Suc i + length xs \<le> length (T[i := row])" using Cons.prems(1) by simp
  from Cons.IH[OF this, of "S[i := [v]]" "H[i := [True]]"] Cons.prems
  show ?case by (auto simp: x v row)
qed

lemma zero_tensors_length:
  "zero_tensors n = (T, S, H) \<Longrightarrow> length T = n \<and> length S = n \<and> length H = n"
  by (auto simp: zero_tensors_def)

lemma zero_tensors_nth:
  "zero_tensors n = (T, S, H) \<Longrightarrow> i < n
   \<Longrightarrow> T ! i = replicate 20 (replicate 12 0) \<and> S ! i = [0] \<and> H ! i = [False]"
  by (auto simp: zero_tensors_def)

lemma length_select_segments:
  "0 \<le> n \<Longrightarrow> length (select_segments n rl) = min (nat n) (length rl)"
  by (simp add: select_segments_def)

lemma set_select_segments: "set (select_segments n rl) \<subseteq> set rl"
  by (auto simp: select_segments_def dest: in_set_takeD)

lemma shape_ok_boundaries:
  "shape_ok s n \<Longrightarrow> left_boundaries s \<noteq> [] \<and> right_boundaries s \<noteq> []"
  by (cases "left_boundaries s"; cases "right_boundaries s") (simp_all add: shape_ok_def)

text \<open>What a normal return of create_lane_tensor looks like.\<close>

lemma create_lane_tensor_Inr:
  assumes "create_lane_tensor segs m cx cy r tlr n = (pr, Inr (Ts, Ss, Hs))"
  shows "\<exists>rl T S H. collect_results segs m cx cy r tlr = (pr, Inr rl) \<and> 0 \<le> n
          \<and> fill_rows 0 (select_segments n rl) (zero_tensors (nat n)) = Inr (T, S, H)
          \<and> Ts = [T] \<and> Ss = [S] \<and> Hs = [H]"
  using assms
  by (auto simp: create_lane_tensor_def split: prod.splits sum.splits if_splits)

lemma create_lane_tensor_ok:
  assumes "\<forall>s\<in>set segs. shape_ok s 20 \<and> speed_limit_mph s \<noteq> None" and "0 \<le> n"
  shows "\<exists>pr T S H. create_lane_tensor segs m cx cy r tlr n = (pr, Inr ([T], [S], [H]))"
proof -
  have "\<forall>s\<in>set segs. left_boundaries s \<noteq> [] \<and> right_boundaries s \<noteq> []"
    using assms(1) shape_ok_boundaries by blast
  with collect_results_ok[of segs cx cy r 20 m tlr] assms(1)
  obtain pr rl where rl: "collect_results segs m cx cy r tlr = (pr, Inr rl)"
    "\<forall>d\<in>set rl. length (fst d) = 20" by auto
  obtain T0 S0 H0 where z: "zero_tensors (nat n) = (T0, S0, H0)" by (cases "zero_tensors (nat n)")
  have "0 + length (select_segments n rl) \<le> length T0"
    using zero_tensors_length[OF z] length_select_segments[OF assms(2), of rl] by simp
  moreover have "\<forall>d\<in>set (select_segments n rl).
      (length (fst d) = 20 \<or> length (fst d) = 1) \<and> snd d \<noteq> None"
    using rl(2) set_select_segments[of n rl] collect_results_elem[OF rl(1)] by blast
  ultimately obtain st where "fill_rows 0 (select_segments n rl) (T0, S0, H0) = Inr st"
    using fill_rows_ok by blast
  then show ?thesis using rl(1) assms(2) z
    by (cases st) (auto simp: create_lane_tensor_def)
qed

lemma length_traffic_light_vector: "length (snd (traffic_light_vector seg tlr)) = 4"
  by (simp add: traffic_light_vector_def traffic_light_color_vector_def
      split: list.splits option.splits)

lemma process_segment_row_length:
  assumes "process_segment seg m cx cy r tlr = (pr, Inr (Some (ld, sp)))"
  shows "\<forall>row\<in>set ld. length row = 12"
proof -
  have "\<And>p t. traffic_light_vector seg tlr = (p, t) \<Longrightarrow> length t = 4"
    using length_traffic_light_vector[of seg tlr] by simp
  then show ?thesis
    using assms
    by (auto simp: process_segment_def Let_def line_data_of_def line_row_def
        split: list.splits if_splits option.splits prod.splits)
qed

lemma collect_results_source:
  "collect_results segs m cx cy r tlr = (pr, Inr rl) \<Longrightarrow> d \<in> set rl
   \<Longrightarrow> \<exists>s\<in>set segs. \<exists>p. process_segment s m cx cy r tlr = (p, Inr (Some d))"
proof (induction segs arbitrary: pr rl)
  case Nil
  then show ?case by simp
next
  case (Cons s segs)
  from Cons.prems(1) obtain p1 cd p2 rl2 where
    ps: "process_segment s m cx cy r tlr = (p1, Inr cd)"
    and cr: "collect_results segs m cx cy r tlr = (p2, Inr rl2)"
    and rl: "rl = (case cd of None \<Rightarrow> rl2 | Some d \<Rightarrow> d # rl2)"
    by (auto split: prod.splits sum.splits)
  show ?case
  proof (cases "d \<in> set rl2")
    case True
    then show ?thesis using Cons.IH[OF cr] by auto
  next
    case False
    with rl Cons.prems(2) have "cd = Some d" by (cases cd) auto
    with ps show ?thesis by auto
  qed
qed

lemma to_lane_row_shape:
  "to_lane_row ld = Inr row \<Longrightarrow> \<forall>p\<in>set ld. length p = 12
   \<Longrightarrow> length row = 20 \<and> (\<forall>p\<in>set row. length p = 12)"
  by (cases ld) (auto simp: to_lane_row_def split: if_splits)


section \<open>Facts about the concrete inputs\<close>

lemma shape_ok_example: "shape_ok (example_segment sid n x0 sp tls) n"
  by (simp add: shape_ok_def example_segment_def straight_line_def)

lemma inside_example:
  "inside (example_segment sid n x0 sp tls) cx cy r
     = (cx - r * 1.1 < x0 \<and> x0 < cx + r * 1.1 \<and> cy - r * 1.1 < 0 \<and> 0 < cy + r * 1.1)"
  by (simp add: inside_def example_segment_def)

lemma example_fields:
  "left_boundaries (example_segment sid n x0 sp tls) \<noteq> []"
  "right_boundaries (example_segment sid n x0 sp tls) \<noteq> []"
  "speed_limit_mph (example_segment sid n x0 sp tls) = sp"
  "traffic_lights (example_segment sid n x0 sp tls) = tls"
  "segment_id (example_segment sid n x0 sp tls) = sid"
  by (simp_all add: example_segment_def)


lemma create_lane_tensor_flags:
  assumes "create_lane_tensor segs m cx cy r tlr n = (pr, Inr ([T], [S], [H]))"
    and "i < nat n"
  shows "(H ! i = [True]) = (i < length (filter (\<lambda>s. inside s cx cy r) segs))"
    and "(H ! i = [False]) = (length (filter (\<lambda>s. inside s cx cy r) segs) \<le> i)"
proof -
  from create_lane_tensor_Inr[OF assms(1)] obtain rl where
    rl: "collect_results segs m cx cy r tlr = (pr, Inr rl)" and n: "0 \<le> n"
    and f: "fill_rows 0 (select_segments n rl) (zero_tensors (nat n)) = Inr (T, S, H)"
    by auto
  obtain T0 S0 H0 where z: "zero_tensors (nat n) = (T0, S0, H0)" by (cases "zero_tensors (nat n)")
  note zl = zero_tensors_length[OF z]
  let ?sel = "select_segments n rl"
  have lsel: "length ?sel = min (nat n) (length rl)" by (rule length_select_segments[OF n])
  have nsurv: "length rl = length (filter (\<lambda>s. inside s cx cy r) segs)"
    by (rule collect_results_length[OF rl])
  have "H ! i = (if i < length rl then [True] else [False])"
  proof (cases "i < length rl")
    case True
    then have "i < length ?sel" using lsel assms(2) by simp
    from fill_rows_filled[OF f[unfolded z] this] zl show ?thesis using True by simp
  next
    case False
    then have "0 + length ?sel \<le> i" using lsel by simp
    from fill_rows_untouched[OF f[unfolded z], of i] this zero_tensors_nth[OF z assms(2)] False
    show ?thesis by simp
  qed
  then show "(H ! i = [True]) = (i < length (filter (\<lambda>s. inside s cx cy r) segs))"
    and "(H ! i = [False]) = (length (filter (\<lambda>s. inside s cx cy r) segs) \<le> i)"
    using nsurv by auto
qed


lemma process_segment_None_speed:
  assumes "shape_ok seg k" "0 < k" "inside seg cx cy r" "speed_limit_mph seg = None"
  shows "snd (process_segment seg m cx cy r tlr) = Inl TypeError"
proof -
  obtain lb lbs where lb: "left_boundaries seg = lb # lbs"
    using shape_ok_boundaries[OF assms(1)] by (cases "left_boundaries seg") auto
  obtain rb rbs where rb: "right_boundaries seg = rb # rbs"
    using shape_ok_boundaries[OF assms(1)] by (cases "right_boundaries seg") auto
  have len: "length (waypoints (polyline seg)) = k"
    "length (waypoints (boundary_polyline lb)) = k"
    "length (waypoints (boundary_polyline rb)) = k"
    using assms(1) lb rb by (simp_all add: shape_ok_def)
  have ne: "map (transform_point m) (waypoints (polyline seg)) \<noteq> []"
    using len(1) assms(2) by auto
  show ?thesis
    using assms(3,4) len ne
    by (simp add: process_segment_def lb rb Let_def broadcast_ok_def length_isub
        length_diff_centerlines length_line_data_of split: prod.splits)
qed

lemma process_segment_shape_ok_cases:
  assumes "shape_ok seg k" "0 < k"
  shows "snd (process_segment seg m cx cy r tlr) = Inl TypeError
       \<or> (\<exists>cd. snd (process_segment seg m cx cy r tlr) = Inr cd)"
proof (cases "inside seg cx cy r")
  case True
  show ?thesis
  proof (cases "speed_limit_mph seg")
    case None
    from process_segment_None_speed[OF assms True None] show ?thesis by simp
  next
    case (Some mph)
    from process_segment_ok[OF assms True Some, of m tlr] show ?thesis by auto
  qed
next
  case False
  then have "process_segment seg m cx cy r tlr = ([], Inr None)"
    using shape_ok_boundaries[OF assms(1)]
    by (auto simp: process_segment_def split: list.splits)
  then show ?thesis by simp
qed

lemma collect_results_TypeError:
  assumes "seg \<in> set segs" "inside seg cx cy r" "speed_limit_mph seg = None"
    and "\<forall>s\<in>set segs. \<exists>k>0. shape_ok s k"
  shows "snd (collect_results segs m cx cy r tlr) = Inl TypeError"
  using assms
proof (induction segs)
  case Nil
  then show ?case by simp
next
  case (Cons s segs)
  from Cons.prems(4) obtain k where k: "0 < k" "shape_ok s k" by auto
  from process_segment_shape_ok_cases[OF k(2,1), of m cx cy r tlr]
  show ?case
  proof
    assume "snd (process_segment s m cx cy r tlr) = Inl TypeError"
    then show ?thesis by (auto split: prod.splits sum.splits)
  next
    assume "\<exists>cd. snd (process_segment s m cx cy r tlr) = Inr cd"
    then obtain p cd where ps: "process_segment s m cx cy r tlr = (p, Inr cd)"
      by (cases "process_segment s m cx cy r tlr") auto
    have "seg \<noteq> s"
    proof
      assume "seg = s"
      with process_segment_None_speed[OF k(2,1) _ _, of cx cy r m tlr] Cons.prems(2,3) ps
      show False by simp
    qed
    with Cons.prems have "snd (collect_results segs m cx cy r tlr) = Inl TypeError"
      by (intro Cons.IH) auto
    with ps show ?thesis by (auto split: prod.splits sum.splits)
  qed
qed

lemma create_lane_tensor_TypeError:
  assumes "seg \<in> set segs" "inside seg cx cy r" "speed_limit_mph seg = None"
    and "\<forall>s\<in>set segs. \<exists>k>0. shape_ok s k"
  shows "snd (create_lane_tensor segs m cx cy r tlr n) = Inl TypeError"
  using collect_results_TypeError[OF assms, of m tlr]
  by (auto simp: create_lane_tensor_def split: prod.splits sum.splits)

lemma process_segment_no_assert:
  "snd (process_segment seg m cx cy r tlr) \<noteq> Inl AssertionError"
  by (auto simp: process_segment_def Let_def split: list.splits option.splits prod.splits)

lemma collect_results_no_assert:
  "snd (collect_results segs m cx cy r tlr) \<noteq> Inl AssertionError"
proof (induction segs)
  case Nil
  then show ?case by simp
next
  case (Cons s segs)
  then show ?case
    using process_segment_no_assert[of s m cx cy r tlr]
    by (auto split: prod.splits sum.splits)
qed

lemma fill_rows_no_assert:
  "\<forall>d\<in>set xs. snd d \<noteq> None \<Longrightarrow> fill_rows i xs st \<noteq> Inl AssertionError"
proof (induction xs arbitrary: i st)
  case Nil
  then show ?case by simp
next
  case (Cons x xs)
  obtain ld sp where x: "x = (ld, sp)" by (cases x)
  obtain T S H where st: "st = (T, S, H)" by (cases st)
  from Cons.prems obtain v where v: "sp = Some v" by (auto simp: x)
  from Cons.prems have "\<forall>d\<in>set xs. snd d \<noteq> None" by simp
  from Cons.IH[OF this] show ?case
    by (auto simp: x st v to_lane_row_def split: sum.splits)
qed

lemma create_lane_tensor_no_assert:
  "snd (create_lane_tensor segs m cx cy r tlr n) \<noteq> Inl AssertionError"
proof (cases "collect_results segs m cx cy r tlr")
  case (Pair pr res)
  show ?thesis
  proof (cases res)
    case (Inl e)
    with Pair collect_results_no_assert[of segs m cx cy r tlr] show ?thesis
      by (simp add: create_lane_tensor_def)
  next
    case (Inr rl)
    have "\<forall>d\<in>set (select_segments n rl). snd d \<noteq> None"
      using collect_results_elem[OF Pair[unfolded Inr]] set_select_segments[of n rl] by blast
    from fill_rows_no_assert[OF this, of 0 "zero_tensors (nat n)"] Pair Inr show ?thesis
      by (auto simp: create_lane_tensor_def split: sum.splits)
  qed
qed

lemma traffic_light_color_vector_one_hot:
  "c \<in> {1, 2, 3, 4} \<Longrightarrow> one_hot (traffic_light_color_vector c)"
  by (auto simp: traffic_light_color_vector_def one_hot_def)

lemma traffic_light_vector_one_hot:
  assumes "\<forall>i c. tlr i = Some c \<longrightarrow> c \<in> {1, 2, 3, 4}"
  shows "one_hot (snd (traffic_light_vector seg tlr))"
proof (cases "traffic_lights seg")
  case Nil
  then show ?thesis by (simp add: traffic_light_vector_def one_hot_def)
next
  case (Cons t ts)
  show ?thesis
  proof (cases "tlr t")
    case None
    with Cons show ?thesis by (simp add: traffic_light_vector_def one_hot_def)
  next
    case (Some c)
    with assms have "c \<in> {1, 2, 3, 4}" by blast
    from traffic_light_color_vector_one_hot[OF this] Cons Some show ?thesis
      by (simp add: traffic_light_vector_def)
  qed
qed

lemma fst_traffic_light_vector:
  "fst (traffic_light_vector seg tlr)
     = (if length (traffic_lights seg) > 1 then [MoreThanOneTrafficLight (segment_id seg)] else [])"
  by (simp add: traffic_light_vector_def split: list.splits)

lemma snd_traffic_light_vector:
  "snd (traffic_light_vector seg tlr)
     = (case traffic_lights seg of
          [] \<Rightarrow> [0, 0, 0, 1]
        | t # _ \<Rightarrow> (case tlr t of
                      None \<Rightarrow> [0, 0, 0, 1]
                    | Some c \<Rightarrow> traffic_light_color_vector c))"
  by (simp add: traffic_light_vector_def split: list.splits)

lemma process_segment_traffic_light:
  assumes "shape_ok seg k" "0 < k" "inside seg cx cy r" "speed_limit_mph seg = Some mph"
  shows "\<exists>ld. process_segment seg m cx cy r tlr
            = (fst (traffic_light_vector seg tlr), Inr (Some (ld, Some (mph * 0.44704))))
          \<and> length ld = k
          \<and> (\<forall>row\<in>set ld. drop 8 row = snd (traffic_light_vector seg tlr))"
proof -
  from process_segment_ok[OF assms, of m tlr] obtain ld where
    ld: "process_segment seg m cx cy r tlr
            = (fst (traffic_light_vector seg tlr), Inr (Some (ld, Some (mph * 0.44704))))"
       "length ld = k" by auto
  from process_segment_Some(6)[OF ld(1)] ld show ?thesis by blast
qed

lemma line_data_of_Cons:
  "\<exists>rest. line_data_of (c # cs) l r t
      = line_row c (diff_centerlines (c # cs) ! 0) (l ! 0) (r ! 0) t # rest"
proof -
  have "[0..<length (c # cs)] = 0 # [Suc 0..<Suc (length cs)]"
    by (simp add: upt_conv_Cons del: upt_Suc)
  then show ?thesis by (simp add: line_data_of_def del: upt_Suc)
qed

lemma first_point_distance_line_data_of:
  "first_point_distance (line_data_of (c # cs) l r t, sp)
     = (case c of (x, y, z) \<Rightarrow> sqrt (x\<^sup>2 + y\<^sup>2))"
proof -
  obtain rest where "line_data_of (c # cs) l r t
      = line_row c (diff_centerlines (c # cs) ! 0) (l ! 0) (r ! 0) t # rest"
    using line_data_of_Cons by blast
  then show ?thesis
    by (simp add: first_point_distance_def line_row_def split: prod.splits)
qed

lemma first_point_distance_process_segment:
  assumes "process_segment s m cx cy r tlr = (p, Inr (Some d))"
  shows "first_point_distance d = ego_distance_first_point m s"
proof -
  obtain ld sp where d: "d = (ld, sp)" by (cases d)
  from process_segment_Some(3,4)[OF assms[unfolded d]]
  have ne: "waypoints (polyline s) \<noteq> []" by auto
  then obtain w ws where w: "waypoints (polyline s) = w # ws" by (cases "waypoints (polyline s)") auto
  have "\<exists>l r t. ld = line_data_of (transform_point m w # map (transform_point m) ws) l r t"
    using assms w unfolding d
    by (auto simp: process_segment_def Let_def
        split: list.splits if_splits option.splits prod.splits)
  then obtain l r t where
    "ld = line_data_of (transform_point m w # map (transform_point m) ws) l r t" by blast
  then show ?thesis
    unfolding d by (simp add: first_point_distance_line_data_of ego_distance_first_point_def w)
qed

lemma collect_results_survivors:
  "collect_results segs m cx cy r tlr = (pr, Inr rl)
   \<Longrightarrow> list_all2 (\<lambda>s d. \<exists>p. process_segment s m cx cy r tlr = (p, Inr (Some d)))
         (filter (\<lambda>s. inside s cx cy r) segs) rl"
proof (induction segs arbitrary: pr rl)
  case Nil
  then show ?case by simp
next
  case (Cons s segs)
  from Cons.prems obtain p1 cd p2 rl2 where
    ps: "process_segment s m cx cy r tlr = (p1, Inr cd)"
    and cr: "collect_results segs m cx cy r tlr = (p2, Inr rl2)"
    and rl: "rl = (case cd of None \<Rightarrow> rl2 | Some d \<Rightarrow> d # rl2)"
    by (auto split: prod.splits sum.splits)
  note IH = Cons.IH[OF cr]
  show ?case
  proof (cases cd)
    case None
    have "\<not> inside s cx cy r"
    proof
      assume "inside s cx cy r"
      with ps None show False
        by (auto simp: process_segment_def Let_def split: list.splits if_splits option.splits prod.splits)
    qed
    with IH rl None show ?thesis by simp
  next
    case (Some d)
    obtain ld sp where d: "d = (ld, sp)" by (cases d)
    from process_segment_Some(1)[OF ps[unfolded Some d]] have "inside s cx cy r" .
    with IH rl Some ps show ?thesis by auto
  qed
qed

lemma list_all2_insort_key:
  assumes "\<And>x y. R x y \<Longrightarrow> f x = g y"
  shows "list_all2 R xs ys \<Longrightarrow> R x y
     \<Longrightarrow> list_all2 R (insort_key f x xs) (insort_key g y ys)"
proof (induction rule: list_all2_induct)
  case Nil
  then show ?case by simp
next
  case (Cons a xs b ys)
  from assms[OF Cons.hyps(1)] assms[OF Cons.prems] Cons show ?case by simp
qed

lemma list_all2_sort_key:
  assumes "\<And>x y. R x y \<Longrightarrow> f x = g y"
  shows "list_all2 R xs ys \<Longrightarrow> list_all2 R (sort_key f xs) (sort_key g ys)"
proof (induction rule: list_all2_induct)
  case Nil
  then show ?case by simp
next
  case (Cons a xs b ys)
  then show ?case using list_all2_insort_key[of R f g, OF assms] by simp
qed


lemma ego_distance_first_point_example:
  "0 < n \<Longrightarrow> ego_distance_first_point identity_mat4 (example_segment sid n x0 sp tls) = \<bar>x0\<bar>"
  by (simp add: ego_distance_first_point_def example_segment_def straight_line_def
      transform_point_def identity_mat4_def hd_map)

section \<open>Properties of the resampler\<close>

lemma planar_distance_nonneg: "0 \<le> planar_distance p q"
  by (simp add: planar_distance_def split: prod.splits)

lemma planar_distance_commute: "planar_distance p q = planar_distance q p"
  by (simp add: planar_distance_def power2_commute split: prod.splits)

lemma line_length_nonneg: "0 \<le> line_length ps"
  by (induction ps rule: line_length.induct) (simp_all add: planar_distance_nonneg)

lemma walk_defined: "ps \<noteq> [] \<Longrightarrow> tot \<le> d \<Longrightarrow> walk ps tot d \<noteq> None"
proof (induction ps tot d rule: walk.induct)
  case (1 p0 p1 ps tot d)
  show ?case
  proof (cases "tot + planar_distance p1 p0 > d")
    case True
    with 1(3) have "planar_distance p1 p0 \<noteq> 0" by auto
    with True show ?thesis by (simp add: Let_def)
  next
    case False
    with 1 show ?thesis by (simp add: Let_def)
  qed
qed simp_all

lemma walk_end: "ps \<noteq> [] \<Longrightarrow> d = tot + line_length ps \<Longrightarrow> walk ps tot d = Some (last ps)"
proof (induction ps tot d rule: walk.induct)
  case (1 p0 p1 ps tot d)
  have "\<not> tot + planar_distance p1 p0 > d"
    using 1(3) line_length_nonneg[of "p1 # ps"] by (simp add: planar_distance_commute)
  moreover have "d = tot + planar_distance p1 p0 + line_length (p1 # ps)"
    using 1(3) by (simp add: planar_distance_commute)
  ultimately show ?case using 1(1)[OF refl _ _ ] by (simp add: Let_def)
qed simp_all

lemma interpolate_defined: "line \<noteq> [] \<Longrightarrow> interpolate line d \<noteq> None"
  using walk_defined[of line 0] by (cases line) (auto simp: interpolate_def Let_def)

lemma interpolate_start: "line \<noteq> [] \<Longrightarrow> interpolate line 0 = Some (hd line)"
  by (cases line) (simp_all add: interpolate_def)

lemma interpolate_end:
  "line \<noteq> [] \<Longrightarrow> 0 < line_length line \<Longrightarrow> interpolate line (line_length line) = Some (last line)"
  using walk_end[of line "line_length line" 0] by (simp add: interpolate_def)


lemma length_linspace: "length (linspace a b n) = n"
  by (simp add: linspace_def)

lemma hd_linspace: "2 \<le> n \<Longrightarrow> hd (linspace 0 b n) = 0"
  by (simp add: linspace_def hd_conv_nth nth_list_update)

lemma last_linspace: "2 \<le> n \<Longrightarrow> last (linspace a b n) = b"
  by (simp add: linspace_def last_conv_nth)

lemma linspace_zero: "linspace 0 0 n = replicate n 0"
  by (rule nth_equalityI) (auto simp: linspace_def nth_list_update)

lemma those_map_defined:
  "\<forall>x\<in>set xs. f x \<noteq> None \<Longrightarrow> those (map f xs) = Some (map (\<lambda>x. the (f x)) xs)"
  by (induction xs) auto

lemma interpolate_points_Inr:
  assumes "2 \<le> length line" "1 \<le> K"
  shows "interpolate_points line K
           = Inr (map (\<lambda>d. the (interpolate line d)) (linspace 0 (line_length line) (nat K)))"
proof -
  have ne: "line \<noteq> []" using assms(1) by auto
  have "length (linspace 0 (line_length line) (nat K)) = nat K" by (rule length_linspace)
  then have ds: "linspace 0 (line_length line) (nat K) \<noteq> []" using assms(2) by auto
  have "those (map (interpolate line) (linspace 0 (line_length line) (nat K)))
      = Some (map (\<lambda>d. the (interpolate line d)) (linspace 0 (line_length line) (nat K)))"
    by (rule those_map_defined) (simp add: interpolate_defined[OF ne])
  then show ?thesis
    using assms ne ds by (simp add: interpolate_points_def Let_def)
qed

lemma interpolate_points_no_NaN: "interpolate_points line K \<noteq> Inl NotANumber"
proof (cases "line = []")
  case True
  then show ?thesis by (simp add: interpolate_points_def Let_def)
next
  case False
  have "those (map (interpolate line) ds) \<noteq> None" for ds
    using those_map_defined[of ds "interpolate line"] interpolate_defined[OF False] by simp
  then obtain y where
    "those (map (interpolate line) (linspace 0 (line_length line) (nat K))) = Some y"
    by blast
  then show ?thesis
    by (simp add: interpolate_points_def Let_def)
qed

lemma interpolate_points_resamplable:
  assumes "resamplable line" "2 \<le> K"
  shows "\<exists>new_line. interpolate_points line K = Inr new_line \<and> length new_line = nat K
           \<and> same_ends line new_line"
proof -
  let ?L = "line_length line"
  let ?ds = "linspace 0 ?L (nat K)"
  let ?new = "map (\<lambda>d. the (interpolate line d)) ?ds"
  from assms(1) have len: "2 \<le> length line" and pos: "0 < ?L" by (simp_all add: resamplable_def)
  then have ne: "line \<noteq> []" by auto
  have k: "2 \<le> nat K" using assms(2) by simp
  have r: "interpolate_points line K = Inr ?new"
    using interpolate_points_Inr[OF len] assms(2) by simp
  have ds: "?ds \<noteq> []" using length_linspace[of 0 ?L "nat K"] k by auto
  have "hd ?new = the (interpolate line (hd ?ds))" using ds by (simp add: hd_map)
  then have h: "hd ?new = hd line" by (simp add: hd_linspace[OF k] interpolate_start[OF ne])
  have "last ?new = the (interpolate line (last ?ds))" using ds by (simp add: last_map)
  then have l: "last ?new = last line"
    by (simp add: last_linspace[OF k] interpolate_end[OF ne pos])
  show ?thesis using r h l by (simp add: same_ends_def length_linspace)
qed

lemma interpolate_points_repeated:
  assumes "2 \<le> n" "1 \<le> K"
  shows "interpolate_points (replicate n p) K = Inr (replicate (nat K) p)"
proof -
  have z: "line_length (replicate m p) = 0" for m
  proof (induction m)
    case (Suc m)
    then show ?case by (cases m) (simp_all add: planar_distance_def split: prod.splits)
  qed simp
  have ne: "replicate n p \<noteq> []" using assms(1) by auto
  have "interpolate (replicate n p) 0 = Some p"
    using interpolate_start[OF ne] assms(1) by (cases n) simp_all
  then have "map (\<lambda>d. the (interpolate (replicate n p) d)) (replicate (nat K) 0)
      = replicate (nat K) p" by (simp add: map_replicate)
  with interpolate_points_Inr[of "replicate n p" K] assms show ?thesis
    by (simp add: z linspace_zero)
qed

lemma fix_segment_resamplable:
  assumes "resamplable_segment s"
  shows "\<exists>s'. fix_segment s = Inr s' \<and> shape_ok s' 20
          \<and> same_ends (waypoints (polyline s)) (waypoints (polyline s'))
          \<and> same_ends (waypoints (boundary_polyline (hd (left_boundaries s))))
               (waypoints (boundary_polyline (hd (left_boundaries s'))))
          \<and> same_ends (waypoints (boundary_polyline (hd (right_boundaries s))))
               (waypoints (boundary_polyline (hd (right_boundaries s'))))"
proof -
  from assms obtain lb lbs rb rbs where
    lb: "left_boundaries s = lb # lbs" and rb: "right_boundaries s = rb # rbs"
    and rs: "resamplable (waypoints (polyline s))"
      "resamplable (waypoints (boundary_polyline lb))"
      "resamplable (waypoints (boundary_polyline rb))"
    by (auto simp: resamplable_segment_def split: list.splits)
  from interpolate_points_resamplable[OF rs(1), of 20] obtain c where
    c: "interpolate_points (waypoints (polyline s)) 20 = Inr c" "length c = 20"
      "same_ends (waypoints (polyline s)) c" by auto
  from interpolate_points_resamplable[OF rs(2), of 20] obtain l where
    l: "interpolate_points (waypoints (boundary_polyline lb)) 20 = Inr l" "length l = 20"
      "same_ends (waypoints (boundary_polyline lb)) l" by auto
  from interpolate_points_resamplable[OF rs(3), of 20] obtain r where
    r: "interpolate_points (waypoints (boundary_polyline rb)) 20 = Inr r" "length r = 20"
      "same_ends (waypoints (boundary_polyline rb)) r" by auto
  show ?thesis
    using lb rb c l r by (simp add: fix_segment_def Let_def shape_ok_def)
qed

lemma fix_point_num_resamplable:
  "\<forall>s\<in>set segs. resamplable_segment s
   \<Longrightarrow> \<exists>segs'. fix_point_num segs = Inr segs' \<and> length segs' = length segs
        \<and> (\<forall>i<length segs. shape_ok (segs' ! i) 20
              \<and> same_ends (waypoints (polyline (segs ! i))) (waypoints (polyline (segs' ! i)))
              \<and> same_ends (waypoints (boundary_polyline (hd (left_boundaries (segs ! i)))))
                   (waypoints (boundary_polyline (hd (left_boundaries (segs' ! i)))))
              \<and> same_ends (waypoints (boundary_polyline (hd (right_boundaries (segs ! i)))))
                   (waypoints (boundary_polyline (hd (right_boundaries (segs' ! i))))))"
proof (induction segs)
  case Nil
  then show ?case by simp
next
  case (Cons s segs)
  from Cons.prems have "resamplable_segment s" by simp
  from fix_segment_resamplable[OF this] obtain s' where
    s': "fix_segment s = Inr s'" "shape_ok s' 20"
      "same_ends (waypoints (polyline s)) (waypoints (polyline s'))"
      "same_ends (waypoints (boundary_polyline (hd (left_boundaries s))))
               (waypoints (boundary_polyline (hd (left_boundaries s'))))"
      "same_ends (waypoints (boundary_polyline (hd (right_boundaries s))))
               (waypoints (boundary_polyline (hd (right_boundaries s'))))" by blast
  from Cons obtain segs' where
    IH: "fix_point_num segs = Inr segs'" "length segs' = length segs"
      "\<forall>i<length segs. shape_ok (segs' ! i) 20
              \<and> same_ends (waypoints (polyline (segs ! i))) (waypoints (polyline (segs' ! i)))
              \<and> same_ends (waypoints (boundary_polyline (hd (left_boundaries (segs ! i)))))
                   (waypoints (boundary_polyline (hd (left_boundaries (segs' ! i)))))
              \<and> same_ends (waypoints (boundary_polyline (hd (right_boundaries (segs ! i)))))
                   (waypoints (boundary_polyline (hd (right_boundaries (segs' ! i)))))"
    by auto
  have "fix_point_num (s # segs) = Inr (s' # segs')" using s'(1) IH(1) by simp
  moreover have "length (s' # segs') = length (s # segs)" using IH(2) by simp
  moreover have "shape_ok ((s' # segs') ! i) 20
              \<and> same_ends (waypoints (polyline ((s # segs) ! i))) (waypoints (polyline ((s' # segs') ! i)))
              \<and> same_ends (waypoints (boundary_polyline (hd (left_boundaries ((s # segs) ! i)))))
                   (waypoints (boundary_polyline (hd (left_boundaries ((s' # segs') ! i)))))
              \<and> same_ends (waypoints (boundary_polyline (hd (right_boundaries ((s # segs) ! i)))))
                   (waypoints (boundary_polyline (hd (right_boundaries ((s' # segs') ! i)))))"
    if "i < length (s # segs)" for i
    using that s'(2-5) IH(3) by (cases i) simp_all
  ultimately show ?case by blast
qed

lemma line_length_example: "line_length (waypoints (straight_line 2 x0 y0)) = 1"
  by (simp add: straight_line_def planar_distance_def upt_conv_Cons del: upt_Suc)

lemma resamplable_example: "resamplable_segment (example_segment sid 2 x0 sp tls)"
  using line_length_example
  by (simp add: resamplable_segment_def resamplable_def example_segment_def)
    (simp add: straight_line_def)


section \<open>Properties of the fixed-spacing pass\<close>

lemma norm3_self: "norm3 (point_sub p p) = 0"
  by (simp add: norm3_def point_sub_def split: prod.splits)

lemma distances_from_replicate: "distances_from acc (replicate n p) = replicate n acc"
proof (induction n arbitrary: acc)
  case 0
  then show ?case by simp
next
  case (Suc n)
  show ?case
  proof (cases n)
    case 0
    then show ?thesis by simp
  next
    case (Suc m)
    with Suc.IH[of acc] show ?thesis by (simp add: norm3_self)
  qed
qed

lemma length_distances_from: "length (distances_from acc ps) = length ps"
  by (induction acc ps rule: distances_from.induct) simp_all

lemma arange_zero: "arange 0 step = []"
  by (simp add: arange_def)

lemma np_interp_replicate:
  "0 < n \<Longrightarrow> np_interp (replicate n 0) (replicate n v) 0 = Some v"
  by (simp add: np_interp_def takeWhile_replicate Let_def)

lemma allclose_refl: "allclose p p"
  by (simp add: allclose_def split: prod.splits)

lemma interpolate_lane_repeated:
  assumes "1 \<le> n"
  shows "interpolate_lane (replicate n p) = Inr [p]"
proof -
  have n: "0 < n" using assms by simp
  then have ne: "replicate n p \<noteq> []" by simp
  have d: "distances_from 0 (replicate n p) = replicate n 0"
    by (rule distances_from_replicate)
  have l: "last (replicate n (0::real)) = 0" "hd (replicate n (0::real)) = 0"
    using n by (simp_all add: last_replicate hd_replicate)
  have ip: "interp_point (replicate n 0) (replicate n p) 0 = Some p"
    using n by (simp add: interp_point_def np_interp_replicate map_replicate)
  have hl: "hd (replicate n p) = p" "last (replicate n p) = p"
    using n by (simp_all add: last_replicate hd_replicate)
  show ?thesis
    unfolding interpolate_lane_def d Let_def l arange_zero
    using ne by (simp add: ip hl allclose_refl)
qed

lemma np_interp_defined:
  assumes "xp \<noteq> []" "hd xp \<le> x" "x \<le> last xp"
  shows "np_interp xp fp x \<noteq> None"
proof -
  let ?tw = "takeWhile (\<lambda>a. a \<le> x) xp"
  let ?j = "length ?tw - 1"
  have twne: "?tw \<noteq> []" using assms(1,2) by (cases xp) auto
  then have j: "?j < length ?tw" by simp
  have "xp ! (?j + 1) - xp ! ?j \<noteq> 0" if "?j \<noteq> length xp - 1"
  proof -
    have "length ?tw \<le> length xp" by (rule length_takeWhile_le)
    with that twne have lt: "length ?tw < length xp"
      by (cases "length ?tw = length xp") auto
    from nth_length_takeWhile[OF lt] have "x < xp ! length ?tw" by simp
    moreover have "?j + 1 = length ?tw" using twne by (cases ?tw) auto
    moreover have "xp ! ?j = ?tw ! ?j" using takeWhile_nth[OF j] by simp
    moreover have "?tw ! ?j \<in> set ?tw" using j by simp
    then have "?tw ! ?j \<le> x" by (auto dest: set_takeWhileD)
    ultimately show ?thesis by simp
  qed
  then show ?thesis using assms(2,3) by (auto simp: np_interp_def Let_def)
qed

lemma interp_point_defined:
  assumes "xp \<noteq> []" "hd xp \<le> x" "x \<le> last xp"
  shows "interp_point xp ps x \<noteq> None"
  using np_interp_defined[OF assms, of "map fst ps"]
    np_interp_defined[OF assms, of "map (\<lambda>p. fst (snd p)) ps"]
    np_interp_defined[OF assms, of "map (\<lambda>p. snd (snd p)) ps"]
  by (auto simp: interp_point_def split: option.splits)

lemma interpolate_lane_no_NaN: "interpolate_lane line \<noteq> Inl NotANumber"
proof (cases "line = []")
  case True
  then show ?thesis by (simp add: interpolate_lane_def)
next
  case False
  let ?ds = "distances_from 0 line"
  let ?nd = "arange (last ?ds) 0.5 @ [last ?ds]"
  have ne: "?ds \<noteq> []" using False length_distances_from[of 0 line] by auto
  show ?thesis
  proof (cases "list_ex (\<lambda>d. d < hd ?ds \<or> last ?ds < d) ?nd")
    case True
    then show ?thesis using False by (simp add: interpolate_lane_def Let_def)
  next
    case False
    then have "\<forall>d\<in>set ?nd. hd ?ds \<le> d \<and> d \<le> last ?ds"
      by (auto simp: list_ex_iff not_less)
    then have "\<forall>d\<in>set ?nd. interp_point ?ds line d \<noteq> None"
      using interp_point_defined[OF ne] by blast
    from those_map_defined[OF this] obtain y where
      "those (map (interp_point ?ds line) ?nd) = Some y" by blast
    with False \<open>line \<noteq> []\<close> show ?thesis by (simp add: interpolate_lane_def Let_def)
  qed
qed


section \<open>Properties of the lane loops of the visualizer\<close>
























section \<open>Claims\<close>

text \<open>
  C1. For in-window segments of the constructed shape (20 waypoints, a speed limit) and
  every capacity \<open>n \<ge> 0\<close>, \<^verbatim>\<open>create_lane_tensor\<close> returns tensors of exactly \<open>n\<close> rows
  (lanes \<open>1 \<times> n \<times> 20 \<times> 12\<close>), whatever the number of segments that passed the window
  test; every row beyond the survivors is all zero, with speed limit zero and flag
  false; with no survivor the whole output is zero and every flag false.
\<close>

theorem create_lane_tensor_shape_and_padding:
  assumes "\<forall>s\<in>set segs. left_boundaries s \<noteq> [] \<and> right_boundaries s \<noteq> []
             \<and> (inside s cx cy r \<longrightarrow> shape_ok s 20 \<and> speed_limit_mph s \<noteq> None)"
    and "0 \<le> n"
  shows "\<exists>pr T S H.
           create_lane_tensor segs m cx cy r tlr n = (pr, Inr ([T], [S], [H]))
         \<and> length T = nat n \<and> length S = nat n \<and> length H = nat n
         \<and> (\<forall>row\<in>set T. length row = 20 \<and> (\<forall>p\<in>set row. length p = 12))
         \<and> (\<forall>i. length (filter (\<lambda>s. inside s cx cy r) segs) \<le> i \<and> i < nat n
                \<longrightarrow> T ! i = replicate 20 (replicate 12 0) \<and> S ! i = [0] \<and> H ! i = [False])
         \<and> (filter (\<lambda>s. inside s cx cy r) segs = []
                \<longrightarrow> T = replicate (nat n) (replicate 20 (replicate 12 0))
                  \<and> S = replicate (nat n) [0] \<and> H = replicate (nat n) [False])"
proof -
  have "\<exists>pr rl. collect_results segs m cx cy r tlr = (pr, Inr rl)
            \<and> (\<forall>d\<in>set rl. length (fst d) = 20)"
    using assms(1) by (intro collect_results_ok) auto
  then obtain pr rl where rl: "collect_results segs m cx cy r tlr = (pr, Inr rl)"
    "\<forall>d\<in>set rl. length (fst d) = 20" by auto
  let ?sel = "select_segments n rl"
  obtain T0 S0 H0 where z: "zero_tensors (nat n) = (T0, S0, H0)" by (cases "zero_tensors (nat n)")
  note zl = zero_tensors_length[OF z]
  have lsel: "length ?sel = min (nat n) (length rl)"
    by (rule length_select_segments[OF assms(2)])
  have "0 + length ?sel \<le> length T0" using zl lsel by simp
  moreover have "\<forall>d\<in>set ?sel. (length (fst d) = 20 \<or> length (fst d) = 1) \<and> snd d \<noteq> None"
    using rl(2) set_select_segments[of n rl] collect_results_elem[OF rl(1)] by blast
  ultimately obtain st where "fill_rows 0 ?sel (T0, S0, H0) = Inr st"
    using fill_rows_ok by blast
  then obtain T S H where f: "fill_rows 0 ?sel (T0, S0, H0) = Inr (T, S, H)" by (cases st) auto
  have c: "create_lane_tensor segs m cx cy r tlr n = (pr, Inr ([T], [S], [H]))"
    using rl(1) assms(2) z f by (simp add: create_lane_tensor_def)
  note fl = fill_rows_length[OF f]
  have len: "length T = nat n" "length S = nat n" "length H = nat n" using fl zl by simp_all
  have nsurv: "length rl = length (filter (\<lambda>s. inside s cx cy r) segs)"
    by (rule collect_results_length[OF rl(1)])
  have pad: "T ! i = replicate 20 (replicate 12 0) \<and> S ! i = [0] \<and> H ! i = [False]"
    if "length rl \<le> i" "i < nat n" for i
  proof -
    have "0 + length ?sel \<le> i" using that lsel by simp
    then have "T ! i = T0 ! i \<and> S ! i = S0 ! i \<and> H ! i = H0 ! i"
      using fill_rows_untouched[OF f, of i] by simp
    with zero_tensors_nth[OF z that(2)] show ?thesis by simp
  qed
  have shape: "length row = 20 \<and> (\<forall>p\<in>set row. length p = 12)" if "row \<in> set T" for row
  proof -
    from that obtain i where i: "i < length T" "row = T ! i" by (auto simp: in_set_conv_nth)
    show ?thesis
    proof (cases "i < length ?sel")
      case True
      from fill_rows_filled[OF f True] zl
      have tr: "to_lane_row (fst (?sel ! i)) = Inr (T ! i)" by simp
      have "?sel ! i \<in> set rl" using True set_select_segments[of n rl] by auto
      from collect_results_source[OF rl(1) this] obtain s p where
        "process_segment s m cx cy r tlr = (p, Inr (Some (?sel ! i)))" by auto
      then have "\<forall>q\<in>set (fst (?sel ! i)). length q = 12"
        using process_segment_row_length[of s m cx cy r tlr p "fst (?sel ! i)" "snd (?sel ! i)"]
        by simp
      from to_lane_row_shape[OF tr this] i show ?thesis by simp
    next
      case False
      then have "length rl \<le> i" using lsel i(1) len by simp
      from pad[OF this] i len show ?thesis by simp
    qed
  qed
  have empty: "T = replicate (nat n) (replicate 20 (replicate 12 0))
      \<and> S = replicate (nat n) [0] \<and> H = replicate (nat n) [False]"
    if "filter (\<lambda>s. inside s cx cy r) segs = []"
  proof -
    from that nsurv have "length rl = 0" by simp
    then have "\<forall>i<nat n. T ! i = replicate 20 (replicate 12 0) \<and> S ! i = [0] \<and> H ! i = [False]"
      using pad by simp
    with len show ?thesis by (auto intro: nth_equalityI)
  qed
  show ?thesis
    using c len shape pad nsurv empty by (intro exI[of _ pr] exI[of _ T] exI[of _ S] exI[of _ H]) simp
qed

theorem create_lane_tensor_shape_and_padding_witness:
  "\<exists>pr T S H.
     create_lane_tensor
       [example_segment 1 20 0 (Some 30) [], example_segment 2 20 500 (Some 30) []]
       identity_mat4 0 0 100 Map.empty 3 = (pr, Inr ([T], [S], [H]))
     \<and> length T = 3 \<and> length S = 3 \<and> length H = 3
     \<and> (\<forall>row\<in>set T. length row = 20 \<and> (\<forall>p\<in>set row. length p = 12))
     \<and> (\<forall>i. 1 \<le> i \<and> i < 3
            \<longrightarrow> T ! i = replicate 20 (replicate 12 0) \<and> S ! i = [0] \<and> H ! i = [False])"
  using create_lane_tensor_shape_and_padding
    [of "[example_segment 1 20 0 (Some 30) [], example_segment 2 20 500 (Some 30) []]"
        0 0 100 3 identity_mat4 Map.empty]
  by (simp add: shape_ok_example inside_example example_fields)

text \<open>
  C10. Whenever \<^verbatim>\<open>create_lane_tensor\<close> returns, every row filled with a surviving
  segment carries \<^verbatim>\<open>has_speed_limit = True\<close>, and a row whose flag is false is a
  padding row.
\<close>

theorem filled_rows_have_speed_limit:
  assumes "create_lane_tensor segs m cx cy r tlr n = (pr, Inr ([T], [S], [H]))"
  shows "\<forall>i<nat n.
           (i < length (filter (\<lambda>s. inside s cx cy r) segs) \<longrightarrow> H ! i = [True])
         \<and> (H ! i = [False] \<longrightarrow> length (filter (\<lambda>s. inside s cx cy r) segs) \<le> i)"
  using create_lane_tensor_flags[OF assms] by blast

theorem filled_rows_have_speed_limit_witness:
  "\<exists>pr T S H.
     create_lane_tensor
       [example_segment 1 20 0 (Some 30) [], example_segment 2 20 5 (Some 50) []]
       identity_mat4 0 0 100 Map.empty 3 = (pr, Inr ([T], [S], [H]))
     \<and> H ! 0 = [True] \<and> H ! 1 = [True] \<and> H ! 2 \<noteq> [True]"
proof -
  let ?segs = "[example_segment 1 20 0 (Some 30) [], example_segment 2 20 5 (Some 50) []]"
  have "\<forall>s\<in>set ?segs. shape_ok s 20 \<and> speed_limit_mph s \<noteq> None"
    by (simp add: shape_ok_example example_fields)
  from create_lane_tensor_ok[OF this, of 3 identity_mat4 0 0 100 Map.empty]
  obtain pr T S H where
    c: "create_lane_tensor ?segs identity_mat4 0 0 100 Map.empty 3 = (pr, Inr ([T], [S], [H]))"
    by auto
  have "length (filter (\<lambda>s. inside s 0 0 100) ?segs) = 2" by (simp add: inside_example)
  with filled_rows_have_speed_limit[OF c] create_lane_tensor_flags(1)[OF c, of 2]
  have "H ! 0 = [True] \<and> H ! 1 = [True] \<and> H ! 2 \<noteq> [True]" by simp
  with c show ?thesis by blast
qed

text \<open>
  C7 (as amended). A segment inside the window whose speed limit is \<^verbatim>\<open>None\<close> makes
  the cycle fail, but not at packing time: \<^verbatim>\<open>process_segment\<close> raises
  \<^verbatim>\<open>TypeError\<close> at the unit conversion \<^verbatim>\<open>segment.speed_limit_mph * 0.44704\<close>, so
  \<^verbatim>\<open>create_lane_tensor\<close> ends with that exception before sorting and packing, and no
  tensor is returned. The assertion of the packing loop never fails, on any input.
  The counterexample is one such segment.
\<close>

theorem missing_speed_limit_raises_before_packing:
  assumes "seg \<in> set segs" "inside seg cx cy r" "speed_limit_mph seg = None"
    and "\<forall>s\<in>set segs. \<exists>k>0. shape_ok s k"
  shows "snd (process_segment seg m cx cy r tlr) = Inl TypeError
       \<and> snd (create_lane_tensor segs m cx cy r tlr n) = Inl TypeError
       \<and> snd (create_lane_tensor segs m cx cy r tlr n) \<noteq> Inl AssertionError"
proof -
  from assms(1,4) obtain k where "0 < k" "shape_ok seg k" by auto
  from process_segment_None_speed[OF this(2,1) assms(2,3)]
    create_lane_tensor_TypeError[OF assms]
  show ?thesis by simp
qed

theorem missing_speed_limit_raises_before_packing_witness:
  "snd (process_segment (example_segment 2 20 5 None []) identity_mat4 0 0 100 Map.empty)
     = Inl TypeError
   \<and> snd (create_lane_tensor
            [example_segment 1 20 0 (Some 30) [], example_segment 2 20 5 None []]
            identity_mat4 0 0 100 Map.empty 3) = Inl TypeError
   \<and> snd (create_lane_tensor
            [example_segment 1 20 0 (Some 30) [], example_segment 2 20 5 None []]
            identity_mat4 0 0 100 Map.empty 3) \<noteq> Inl AssertionError"
proof -
  have "\<forall>s\<in>set [example_segment 1 20 0 (Some 30) [], example_segment 2 20 5 None []].
          \<exists>k>0. shape_ok s k"
    using shape_ok_example[of _ 20] by (auto intro!: exI[of _ 20])
  from missing_speed_limit_raises_before_packing[OF _ _ _ this,
      of "example_segment 2 20 5 None []" 0 0 100 identity_mat4 Map.empty 3]
  show ?thesis by (simp add: inside_example example_fields)
qed

theorem assertion_is_not_what_fails_counterexample:
  "snd (process_segment (example_segment 1 20 0 None []) identity_mat4 0 0 100 Map.empty)
     = Inl TypeError
   \<and> snd (create_lane_tensor [example_segment 1 20 0 None []]
            identity_mat4 0 0 100 Map.empty 3) = Inl TypeError
   \<and> snd (create_lane_tensor [example_segment 1 20 0 None []]
            identity_mat4 0 0 100 Map.empty 3) \<noteq> Inl AssertionError"
proof -
  let ?s = "example_segment 1 20 0 None []"
  have ok: "shape_ok ?s 20" by (rule shape_ok_example)
  have ins: "inside ?s 0 0 100" by (simp add: inside_example)
  have none: "speed_limit_mph ?s = None" by (simp add: example_fields)
  have all: "\<forall>s\<in>set [?s]. \<exists>k>0. shape_ok s k"
    using ok by (auto intro!: exI[of _ 20])
  have "snd (process_segment ?s identity_mat4 0 0 100 Map.empty) = Inl TypeError"
    by (rule process_segment_None_speed[OF ok _ ins none]) simp
  moreover have "snd (create_lane_tensor [?s] identity_mat4 0 0 100 Map.empty 3)
      = Inl TypeError"
    by (rule create_lane_tensor_TypeError[OF _ ins none all]) simp
  ultimately show ?thesis by simp
qed

text \<open>
  C3. For a segment inside the window (of the constructed shape, with a speed limit) and
  a recognition mapping whose codes all lie in \<open>{1, 2, 3, 4}\<close> (red, amber, green,
  white), \<^verbatim>\<open>process_segment\<close> returns normally and the traffic-light channels 8 to 11
  are the same one-hot vector on every point of the lane: unknown with no associated
  element; the first element only, with the warning printed and no failure, when there
  are several; unknown when the id is absent from the mapping; the slot of the code
  otherwise (1 red, 2 yellow, 3 green, 4 unknown).
\<close>

theorem traffic_light_encoding_one_hot:
  assumes "shape_ok seg k" "0 < k" "inside seg cx cy r" "speed_limit_mph seg = Some mph"
    and "\<forall>i c. tlr i = Some c \<longrightarrow> c \<in> {1, 2, 3, 4}"
  shows "\<exists>ld v.
           process_segment seg m cx cy r tlr
             = (if length (traffic_lights seg) > 1
                  then [MoreThanOneTrafficLight (segment_id seg)] else [],
                Inr (Some (ld, Some (mph * 0.44704))))
         \<and> length ld = k
         \<and> (\<forall>row\<in>set ld. drop 8 row = v)
         \<and> one_hot v
         \<and> v = (case traffic_lights seg of
                  [] \<Rightarrow> [0, 0, 0, 1]
                | t # _ \<Rightarrow>
                    (case tlr t of
                       None \<Rightarrow> [0, 0, 0, 1]
                     | Some c \<Rightarrow>
                         if c = 1 then [0, 0, 1, 0]
                         else if c = 2 then [0, 1, 0, 0]
                         else if c = 3 then [1, 0, 0, 0]
                         else [0, 0, 0, 1]))"
proof -
  let ?v = "snd (traffic_light_vector seg tlr)"
  from process_segment_traffic_light[OF assms(1-4), of m tlr] obtain ld where
    ld: "process_segment seg m cx cy r tlr
            = (fst (traffic_light_vector seg tlr), Inr (Some (ld, Some (mph * 0.44704))))"
       "length ld = k" "\<forall>row\<in>set ld. drop 8 row = ?v" by auto
  have oh: "one_hot ?v" by (rule traffic_light_vector_one_hot[OF assms(5)])
  have v: "?v = (case traffic_lights seg of
                  [] \<Rightarrow> [0, 0, 0, 1]
                | t # _ \<Rightarrow>
                    (case tlr t of
                       None \<Rightarrow> [0, 0, 0, 1]
                     | Some c \<Rightarrow>
                         if c = 1 then [0, 0, 1, 0]
                         else if c = 2 then [0, 1, 0, 0]
                         else if c = 3 then [1, 0, 0, 0]
                         else [0, 0, 0, 1]))"
    using assms(5)
    by (auto simp: snd_traffic_light_vector traffic_light_color_vector_def
        split: list.splits option.splits)
  show ?thesis
    using ld oh v unfolding fst_traffic_light_vector by blast
qed

theorem traffic_light_encoding_one_hot_witness:
  "\<exists>ld. process_segment (example_segment 7 20 0 (Some 30) [5, 6]) identity_mat4 0 0 100
           (Map.empty(5 \<mapsto> 3))
         = ([MoreThanOneTrafficLight 7], Inr (Some (ld, Some (30 * 0.44704))))
       \<and> length ld = 20
       \<and> (\<forall>row\<in>set ld. drop 8 row = [1, 0, 0, 0])
       \<and> one_hot [1, 0, 0, 0]"
proof -
  have codes: "\<forall>i c. (Map.empty(5 \<mapsto> 3 :: int)) (i :: int) = Some c \<longrightarrow> c \<in> {1, 2, 3, 4}"
    by auto
  have ins: "inside (example_segment 7 20 0 (Some 30) [5, 6]) 0 0 100"
    by (simp add: inside_example)
  from traffic_light_encoding_one_hot[where seg = "example_segment 7 20 0 (Some 30) [5, 6]"
      and k = 20 and cx = 0 and cy = 0 and r = 100 and mph = 30
      and tlr = "Map.empty(5 \<mapsto> 3)" and m = identity_mat4, OF shape_ok_example _ ins _ codes]
  show ?thesis by (simp add: example_fields one_hot_def)
qed

text \<open>
  C4 (as amended). A first associated traffic light whose observed code is outside
  \<open>{1, 2, 3, 4}\<close> raises nothing: \<^verbatim>\<open>process_segment\<close>, whose chain of comparisons has
  no final branch and no \<^verbatim>\<open>raise\<close>, returns the data of the segment normally (printing
  only the warning for several lights), and \<^verbatim>\<open>create_lane_tensor\<close> returns its tensors.
\<close>

theorem unrecognized_code_raises_nothing:
  assumes "shape_ok seg 20" "inside seg cx cy r" "speed_limit_mph seg = Some mph"
    and "traffic_lights seg = t # ts" "tlr t = Some c" "c \<notin> {1, 2, 3, 4}" "0 \<le> n"
  shows "(\<exists>ld. process_segment seg m cx cy r tlr
             = (if ts = [] then [] else [MoreThanOneTrafficLight (segment_id seg)],
                Inr (Some (ld, Some (mph * 0.44704))))
           \<and> length ld = 20)
       \<and> (\<exists>pr T S H. create_lane_tensor [seg] m cx cy r tlr n = (pr, Inr ([T], [S], [H])))"
proof -
  have pr: "fst (traffic_light_vector seg tlr)
      = (if ts = [] then [] else [MoreThanOneTrafficLight (segment_id seg)])"
    using assms(4) by (cases ts) (simp_all add: fst_traffic_light_vector)
  from process_segment_ok[OF assms(1) _ assms(2,3), of m tlr]
  have 1: "\<exists>ld. process_segment seg m cx cy r tlr
             = (if ts = [] then [] else [MoreThanOneTrafficLight (segment_id seg)],
                Inr (Some (ld, Some (mph * 0.44704))))
           \<and> length ld = 20"
    unfolding pr by simp
  have "\<forall>s\<in>set [seg]. shape_ok s 20 \<and> speed_limit_mph s \<noteq> None"
    using assms(1,3) by simp
  from create_lane_tensor_ok[OF this assms(7), of m cx cy r tlr]
  have 2: "\<exists>pr T S H. create_lane_tensor [seg] m cx cy r tlr n = (pr, Inr ([T], [S], [H]))" .
  from 1 2 show ?thesis by blast
qed

theorem unrecognized_code_raises_nothing_witness:
  "(\<exists>ld. process_segment (example_segment 7 20 0 (Some 30) [5]) identity_mat4 0 0 100
              (Map.empty(5 \<mapsto> 0))
            = ([], Inr (Some (ld, Some (30 * 0.44704))))
          \<and> length ld = 20)
   \<and> (\<exists>pr T S H. create_lane_tensor [example_segment 7 20 0 (Some 30) [5]] identity_mat4
          0 0 100 (Map.empty(5 \<mapsto> 0)) 1 = (pr, Inr ([T], [S], [H])))"
proof -
  have ins: "inside (example_segment 7 20 0 (Some 30) [5]) 0 0 100"
    by (simp add: inside_example)
  from unrecognized_code_raises_nothing[where seg = "example_segment 7 20 0 (Some 30) [5]"
      and cx = 0 and cy = 0 and r = 100 and mph = 30 and t = 5 and ts = "[]"
      and tlr = "Map.empty(5 \<mapsto> 0)" and c = 0 and m = identity_mat4 and n = 1,
      OF shape_ok_example ins]
  show ?thesis by (simp add: example_fields)
qed

theorem unrecognized_code_counterexample:
  "\<exists>ld. process_segment (example_segment 7 20 0 (Some 30) [5]) identity_mat4 0 0 100
           (Map.empty(5 \<mapsto> 9))
         = ([], Inr (Some (ld, Some (30 * 0.44704))))
       \<and> (\<forall>row\<in>set ld. drop 8 row = [0, 0, 0, 0])"
proof -
  let ?s = "example_segment 7 20 0 (Some 30) [5]"
  have ins: "inside ?s 0 0 100" by (simp add: inside_example)
  have sp: "speed_limit_mph ?s = Some 30" by (simp add: example_fields)
  have "snd (traffic_light_vector ?s (Map.empty(5 \<mapsto> 9))) = [0, 0, 0, 0]"
    by (simp add: snd_traffic_light_vector traffic_light_color_vector_def example_fields)
  moreover have "fst (traffic_light_vector ?s (Map.empty(5 \<mapsto> 9))) = []"
    by (simp add: fst_traffic_light_vector example_fields)
  ultimately show ?thesis
    using process_segment_traffic_light[OF shape_ok_example _ ins sp,
        of identity_mat4 "Map.empty(5 \<mapsto> 9)"]
    by auto
qed

text \<open>
  C2. Whenever \<^verbatim>\<open>create_lane_tensor\<close> returns, its rows are the first \<open>n\<close> of the
  surviving segments ranked by the planar distance from the ego-frame origin to their
  first centerline point: the kept segments are in ascending order of that distance, no
  dropped segment is closer than a kept one, and segments at the same distance stay in
  their original relative order (the sort is stable, so the earlier ones are kept). Row
  \<open>i\<close> holds the data of the \<open>i\<close>-th kept segment. The result is a function of the
  arguments, hence the same on every run.
\<close>

theorem nearest_segments_ranked_by_first_point:
  assumes "create_lane_tensor segs m cx cy r tlr n = (pr, Inr ([T], [S], [H]))"
  shows "\<exists>kept dropped.
           kept @ dropped
             = sort_key (ego_distance_first_point m) (filter (\<lambda>s. inside s cx cy r) segs)
         \<and> length kept = min (nat n) (length (filter (\<lambda>s. inside s cx cy r) segs))
         \<and> sorted (map (ego_distance_first_point m) kept)
         \<and> (\<forall>a\<in>set kept. \<forall>b\<in>set dropped.
               ego_distance_first_point m a \<le> ego_distance_first_point m b)
         \<and> (\<forall>k. filter (\<lambda>s. ego_distance_first_point m s = k) (kept @ dropped)
                 = filter (\<lambda>s. ego_distance_first_point m s = k)
                     (filter (\<lambda>s. inside s cx cy r) segs))
         \<and> (\<forall>i<length kept. \<exists>p ld v.
               process_segment (kept ! i) m cx cy r tlr = (p, Inr (Some (ld, Some v)))
             \<and> to_lane_row ld = Inr (T ! i) \<and> S ! i = [v])"
proof -
  let ?key = "ego_distance_first_point m"
  let ?surv = "filter (\<lambda>s. inside s cx cy r) segs"
  let ?R = "\<lambda>s d. \<exists>p. process_segment s m cx cy r tlr = (p, Inr (Some d))"
  from create_lane_tensor_Inr[OF assms] obtain rl where
    rl: "collect_results segs m cx cy r tlr = (pr, Inr rl)" and n: "0 \<le> n"
    and f: "fill_rows 0 (select_segments n rl) (zero_tensors (nat n)) = Inr (T, S, H)"
    by auto
  obtain T0 S0 H0 where z: "zero_tensors (nat n) = (T0, S0, H0)" by (cases "zero_tensors (nat n)")
  note zl = zero_tensors_length[OF z]
  let ?sorted = "sort_key ?key ?surv"
  let ?kept = "take (nat n) ?sorted"
  let ?dropped = "drop (nat n) ?sorted"
  let ?sel = "select_segments n rl"
  have key: "?key s = first_point_distance d" if "?R s d" for s d
    using that first_point_distance_process_segment by fastforce
  have all2: "list_all2 ?R ?surv rl" by (rule collect_results_survivors[OF rl])
  have "list_all2 ?R ?sorted (sort_key first_point_distance rl)"
  proof (rule list_all2_sort_key)
    show "?key x = first_point_distance y" if "?R x y" for x y using that by (rule key)
    show "list_all2 ?R ?surv rl" by (rule all2)
  qed
  then have sel: "list_all2 ?R ?kept ?sel"
    unfolding select_segments_def by (rule list_all2_takeI)
  have srt: "sorted (map ?key ?sorted)" by (rule sorted_sort_key)
  have 1: "?kept @ ?dropped = ?sorted" by simp
  have 2: "length ?kept = min (nat n) (length ?surv)" by simp
  have "sorted (map ?key (?kept @ ?dropped))" using srt by simp
  then have 3: "sorted (map ?key ?kept)"
    and 4: "\<forall>a\<in>set ?kept. \<forall>b\<in>set ?dropped. ?key a \<le> ?key b"
    unfolding map_append sorted_append by auto
  have 5: "\<forall>k. filter (\<lambda>s. ?key s = k) (?kept @ ?dropped) = filter (\<lambda>s. ?key s = k) ?surv"
    unfolding 1 by (simp add: sort_key_stable)
  have 6: "\<exists>p ld v. process_segment (?kept ! i) m cx cy r tlr = (p, Inr (Some (ld, Some v)))
             \<and> to_lane_row ld = Inr (T ! i) \<and> S ! i = [v]" if i: "i < length ?kept" for i
  proof -
    from sel have len: "length ?kept = length ?sel" by (rule list_all2_lengthD)
    from list_all2_nthD[OF sel i] obtain p where
      p: "process_segment (?kept ! i) m cx cy r tlr = (p, Inr (Some (?sel ! i)))"
      by blast
    have "i < length ?sel" using i unfolding len .
    from fill_rows_filled[OF f[unfolded z] this] zl
    obtain v where "to_lane_row (fst (?sel ! i)) = Inr (T ! i)" "snd (?sel ! i) = Some v"
      "S ! i = [v]" by auto
    with p show ?thesis by (cases "?sel ! i") auto
  qed
  show ?thesis
    using 1 2 3 4 5 6 by (intro exI[of _ ?kept] exI[of _ ?dropped]) blast
qed



theorem nearest_segments_ranked_by_first_point_witness:
  "\<exists>pr T S H.
     create_lane_tensor
       [example_segment 1 20 12.3 (Some 10) [], example_segment 2 20 4.1 (Some 20) [],
        example_segment 3 20 30 (Some 30) [], example_segment 4 20 4.1 (Some 40) []]
       identity_mat4 0 0 100 Map.empty 3 = (pr, Inr ([T], [S], [H]))
     \<and> S ! 0 = [20 * 0.44704] \<and> S ! 1 = [40 * 0.44704] \<and> S ! 2 = [10 * 0.44704]"
proof -
  let ?s1 = "example_segment 1 20 12.3 (Some 10) []"
  let ?s2 = "example_segment 2 20 4.1 (Some 20) []"
  let ?s3 = "example_segment 3 20 30 (Some 30) []"
  let ?s4 = "example_segment 4 20 4.1 (Some 40) []"
  let ?segs = "[?s1, ?s2, ?s3, ?s4]"
  have "\<forall>s\<in>set ?segs. shape_ok s 20 \<and> speed_limit_mph s \<noteq> None"
    by (simp add: shape_ok_example example_fields)
  from create_lane_tensor_ok[OF this, of 3 identity_mat4 0 0 100 Map.empty]
  obtain pr T S H where
    c: "create_lane_tensor ?segs identity_mat4 0 0 100 Map.empty 3 = (pr, Inr ([T], [S], [H]))"
    by auto
  have surv: "filter (\<lambda>s. inside s 0 0 100) ?segs = ?segs" by (simp add: inside_example)
  have srt: "sort_key (ego_distance_first_point identity_mat4) ?segs = [?s2, ?s4, ?s1, ?s3]"
    by (simp add: ego_distance_first_point_example)
  from nearest_segments_ranked_by_first_point[OF c] obtain kept dropped where
    kd: "kept @ dropped = [?s2, ?s4, ?s1, ?s3]" and len: "length kept = 3"
    and rows: "\<forall>i<length kept. \<exists>p ld v.
        process_segment (kept ! i) identity_mat4 0 0 100 Map.empty = (p, Inr (Some (ld, Some v)))
        \<and> to_lane_row ld = Inr (T ! i) \<and> S ! i = [v]"
    unfolding surv srt by auto
  have "kept = take 3 (kept @ dropped)" using len by simp
  then have kept: "kept = [?s2, ?s4, ?s1]" unfolding kd by simp
  have ps: "\<exists>ld. process_segment (example_segment sid 20 x0 (Some v) []) identity_mat4 0 0 100 Map.empty
         = ([], Inr (Some (ld, Some (v * 0.44704))))" if "- 110 < x0" "x0 < 110" for sid x0 v
  proof -
    have ins: "inside (example_segment sid 20 x0 (Some v) []) 0 0 100"
      using that by (simp add: inside_example)
    have sp: "speed_limit_mph (example_segment sid 20 x0 (Some v) []) = Some v"
      by (simp add: example_fields)
    from process_segment_ok[OF shape_ok_example _ ins sp, of identity_mat4 Map.empty]
    show ?thesis by (auto simp: fst_traffic_light_vector example_fields)
  qed
  have "S ! 0 = [20 * 0.44704]" using rows[rule_format, of 0] ps[of "4.1" 2 20] by (auto simp: kept)
  moreover have "S ! 1 = [40 * 0.44704]" using rows[rule_format, of 1] ps[of "4.1" 4 40] by (auto simp: kept)
  moreover have "S ! 2 = [10 * 0.44704]" using rows[rule_format, of 2] ps[of "12.3" 1 10] by (auto simp: kept)
  ultimately show ?thesis using c by blast
qed

text \<open>
  C5 (as amended). A polyline of at least two points whose length in the plane is
  positive, resampled by \<^verbatim>\<open>_interpolate_points\<close> to \<open>K \<ge> 2\<close> points, comes back with
  exactly \<open>K\<close> points, the first and the last being those of the input. When every lane
  segment has such a centerline, first left boundary and first right boundary,
  \<^verbatim>\<open>_fix_point_num\<close> returns, and gives each of the three polylines of every segment
  exactly 20 points with both ends kept.
\<close>

theorem resampling_keeps_count_and_ends:
  "(resamplable line \<and> 2 \<le> K
      \<longrightarrow> (\<exists>new_line. interpolate_points line K = Inr new_line \<and> length new_line = nat K
             \<and> same_ends line new_line))
   \<and> ((\<forall>s\<in>set segs. resamplable_segment s)
      \<longrightarrow> (\<exists>segs'. fix_point_num segs = Inr segs' \<and> length segs' = length segs
             \<and> (\<forall>i<length segs. shape_ok (segs' ! i) 20
                   \<and> same_ends (waypoints (polyline (segs ! i)))
                        (waypoints (polyline (segs' ! i)))
                   \<and> same_ends (waypoints (boundary_polyline (hd (left_boundaries (segs ! i)))))
                        (waypoints (boundary_polyline (hd (left_boundaries (segs' ! i)))))
                   \<and> same_ends (waypoints (boundary_polyline (hd (right_boundaries (segs ! i)))))
                        (waypoints (boundary_polyline (hd (right_boundaries (segs' ! i))))))))"
  using interpolate_points_resamplable[of line K] fix_point_num_resamplable[of segs]
  by blast

theorem resampling_keeps_count_and_ends_witness:
  "(\<exists>new_line. interpolate_points [(0, 0, 0), (4, 0, 2)] 3 = Inr new_line
        \<and> length new_line = 3 \<and> hd new_line = (0, 0, 0) \<and> last new_line = (4, 0, 2))
   \<and> (\<exists>s'. fix_point_num [example_segment 1 2 0 (Some 30) []] = Inr [s']
        \<and> shape_ok s' 20
        \<and> hd (waypoints (polyline s')) = (0, 0, 0)
        \<and> last (waypoints (polyline s')) = (1, 0, 0))"
proof -
  let ?line = "[(0, 0, 0), (4, 0, 2)] :: point list"
  let ?segs = "[example_segment 1 2 0 (Some 30) []]"
  have 1: "resamplable ?line \<and> (2::int) \<le> 3"
    by (simp add: resamplable_def planar_distance_def)
  have 2: "\<forall>s\<in>set ?segs. resamplable_segment s" by (simp add: resamplable_example)
  from resampling_keeps_count_and_ends[of ?line 3 ?segs] 1 2
  have a: "\<exists>new_line. interpolate_points ?line 3 = Inr new_line \<and> length new_line = nat 3
             \<and> same_ends ?line new_line"
    and b: "\<exists>segs'. fix_point_num ?segs = Inr segs' \<and> length segs' = length ?segs
             \<and> (\<forall>i<length ?segs. shape_ok (segs' ! i) 20
                   \<and> same_ends (waypoints (polyline (?segs ! i)))
                        (waypoints (polyline (segs' ! i)))
                   \<and> same_ends (waypoints (boundary_polyline (hd (left_boundaries (?segs ! i)))))
                        (waypoints (boundary_polyline (hd (left_boundaries (segs' ! i)))))
                   \<and> same_ends (waypoints (boundary_polyline (hd (right_boundaries (?segs ! i)))))
                        (waypoints (boundary_polyline (hd (right_boundaries (segs' ! i))))))"
    by blast+
  from a have A: "\<exists>new_line. interpolate_points ?line 3 = Inr new_line
        \<and> length new_line = 3 \<and> hd new_line = (0, 0, 0) \<and> last new_line = (4, 0, 2)"
    by (simp add: same_ends_def)
  from b obtain segs' where s: "fix_point_num ?segs = Inr segs'" "length segs' = 1"
    "shape_ok (segs' ! 0) 20"
    "same_ends (waypoints (polyline (?segs ! 0))) (waypoints (polyline (segs' ! 0)))"
    by auto
  from s(2) obtain s' where s': "segs' = [s']" by (cases segs') auto
  from s(4) have "hd (waypoints (polyline s')) = (0, 0, 0)
        \<and> last (waypoints (polyline s')) = (1, 0, 0)"
    by (simp add: s' same_ends_def example_segment_def straight_line_def upt_conv_Cons
        del: upt_Suc)
  with s(1,3) s' have B: "\<exists>s'. fix_point_num ?segs = Inr [s'] \<and> shape_ok s' 20
        \<and> hd (waypoints (polyline s')) = (0, 0, 0)
        \<and> last (waypoints (polyline s')) = (1, 0, 0)" by auto
  from A B show ?thesis by blast
qed

theorem resampling_loses_last_point_counterexample:
  "line_length [(0, 0, 0), (4, 0, 2)] = 4
   \<and> interpolate_points [(0, 0, 0), (4, 0, 2)] 1 = Inr [(0, 0, 0)]
   \<and> last [(0, 0, 0) :: point] \<noteq> last [(0, 0, 0), (4, 0, 2)]
   \<and> arc_length [(0, 0, 0), (0, 0, 5)] = 5
   \<and> interpolate_points [(0, 0, 0), (0, 0, 5)] 20 = Inr (replicate 20 (0, 0, 0))
   \<and> last (replicate 20 ((0, 0, 0) :: point)) \<noteq> last [(0, 0, 0), (0, 0, 5)]"
proof -
  have 1: "line_length [(0, 0, 0), (4, 0, 2)] = 4" by (simp add: planar_distance_def)
  have 2: "interpolate_points [(0, 0, 0), (4, 0, 2)] 1 = Inr [(0, 0, 0)]"
    by (simp add: interpolate_points_def linspace_def interpolate_def planar_distance_def Let_def)
  have 3: "arc_length [(0, 0, 0), (0, 0, 5)] = 5" by (simp add: point_sub_def)
  have z: "line_length [(0, 0, 0), (0, 0, 5)] = 0" by (simp add: planar_distance_def)
  have i: "interpolate [(0, 0, 0), (0, 0, 5)] 0 = Some (0, 0, 0)" by (simp add: interpolate_def)
  have "interpolate_points [(0, 0, 0), (0, 0, 5)] 20
      = Inr (map (\<lambda>d. the (interpolate [(0, 0, 0), (0, 0, 5)] d))
               (linspace 0 (line_length [(0, 0, 0), (0, 0, 5)]) (nat 20)))"
    by (rule interpolate_points_Inr) simp_all
  also have "linspace 0 (line_length [(0, 0, 0), (0, 0, 5)]) (nat 20) = replicate 20 0"
    unfolding z linspace_zero by simp
  also have "map (\<lambda>d. the (interpolate [(0, 0, 0), (0, 0, 5)] d)) (replicate 20 0)
      = replicate 20 (0, 0, 0)"
    unfolding map_replicate i by simp
  finally have 4: "interpolate_points [(0, 0, 0), (0, 0, 5)] 20 = Inr (replicate 20 (0, 0, 0))" .
  have 5: "last (replicate 20 ((0, 0, 0) :: point)) \<noteq> last [(0, 0, 0), (0, 0, 5)]"
    by (simp add: last_replicate)
  show ?thesis using 1 2 3 4 5 by simp
qed

text \<open>
  C6 (as amended). On a polyline that is one point repeated, neither pass of the
  resampling divides by zero or yields NaN, and that holds on every input: the marker of
  a NaN result is never returned. \<^verbatim>\<open>_interpolate_lane\<close> keeps the point once.
  \<^verbatim>\<open>_interpolate_points\<close>, given two copies at least and \<open>K \<ge> 1\<close>, returns \<open>K\<close> copies
  of the point.
\<close>

theorem repeated_point_resampling:
  "(1 \<le> n \<longrightarrow> interpolate_lane (replicate n p) = Inr [p])
   \<and> (2 \<le> n \<and> 1 \<le> K \<longrightarrow> interpolate_points (replicate n p) K = Inr (replicate (nat K) p))
   \<and> interpolate_lane line \<noteq> Inl NotANumber
   \<and> interpolate_points line' K' \<noteq> Inl NotANumber"
  using interpolate_lane_repeated[of n p] interpolate_points_repeated[of n K p]
    interpolate_lane_no_NaN[of line] interpolate_points_no_NaN[of line' K']
  by blast

theorem repeated_point_resampling_witness:
  "interpolate_lane [(1, 2, 3), (1, 2, 3)] = Inr [(1, 2, 3)]
   \<and> interpolate_points [(1, 2, 3), (1, 2, 3)] 4
       = Inr [(1, 2, 3), (1, 2, 3), (1, 2, 3), (1, 2, 3)]"
proof -
  have 2: "replicate 2 ((1, 2, 3) :: point) = [(1, 2, 3), (1, 2, 3)]"
    by (simp add: numeral_2_eq_2)
  have 4: "replicate (nat 4) ((1, 2, 3) :: point) = [(1, 2, 3), (1, 2, 3), (1, 2, 3), (1, 2, 3)]"
    by (simp add: eval_nat_numeral)
  from repeated_point_resampling[of 2 "(1, 2, 3)" 4]
  have "interpolate_lane (replicate 2 (1, 2, 3)) = Inr [(1, 2, 3)]
      \<and> interpolate_points (replicate 2 (1, 2, 3)) 4 = Inr (replicate (nat 4) (1, 2, 3))"
    by simp
  then show ?thesis unfolding 2 4 .
qed

text \<open>
  The two passes in a row, as \<^verbatim>\<open>convert_lanelet\<close> applies them: the single point that
  \<^verbatim>\<open>_interpolate_lane\<close> returns is refused by \<^verbatim>\<open>LineString\<close>, in \<^verbatim>\<open>_interpolate_points\<close>
  and so in \<^verbatim>\<open>_fix_point_num\<close>.
\<close>

theorem repeated_point_is_refused_counterexample:
  "interpolate_lane [(1, 2, 3), (1, 2, 3)] = Inr [(1, 2, 3)]
   \<and> interpolate_points [(1, 2, 3)] 20 = Inl GEOSException
   \<and> fix_point_num
        [(example_segment 1 2 0 (Some 30) [])
           \<lparr>polyline := \<lparr>polyline_type = LANE_CENTER, waypoints = [(1, 2, 3)]\<rparr>\<rparr>]
       = Inl GEOSException"
proof -
  have 2: "replicate 2 ((1, 2, 3) :: point) = [(1, 2, 3), (1, 2, 3)]"
    by (simp add: numeral_2_eq_2)
  have a: "interpolate_lane [(1, 2, 3), (1, 2, 3)] = Inr [(1, 2, 3)]"
    using interpolate_lane_repeated[of 2 "(1, 2, 3)"] unfolding 2 by simp
  have b: "interpolate_points [(1, 2, 3)] K = Inl GEOSException" for K
    by (simp add: interpolate_points_def)
  have c: "fix_point_num
        [(example_segment 1 2 0 (Some 30) [])
           \<lparr>polyline := \<lparr>polyline_type = LANE_CENTER, waypoints = [(1, 2, 3)]\<rparr>\<rparr>]
       = Inl GEOSException"
    by (simp add: fix_segment_def example_segment_def b Let_def)
  from a b[of 20] c show ?thesis by simp
qed




end
